theory Spec2Isabelle
  imports Complex_Main
begin

section \<open>Numbers, values and strings of the source language\<close>

text \<open>
  The numbers of the source are IEEE doubles.  A finite number is modelled by the real
  it denotes; NaN and the two infinities are explicit.  Where a function of the source
  is only ever handed finite numbers (coordinates, counts) its parameters are reals or
  integers directly.  The percentage functions are modelled with the rounding of
  every operation (\<open>roundDouble\<close> below), because what is said of them depends on the
  order of their operations.  The other functions are modelled with exact
  arithmetic: the clock helpers compute on integers far below \<open>2 ^ 53\<close>, where doubles
  are exact, and what is shown of \<open>calculatePDO\<close> and \<open>estimateXG\<close> compares the
  source's expressions with themselves or bounds them by the final clamp.
\<close>

datatype jsnum = NaN | PosInf | NegInf | Num real

text \<open>Addition and multiplication of numbers, with the special cases of IEEE 754.\<close>

fun jadd :: "jsnum \<Rightarrow> jsnum \<Rightarrow> jsnum" where
  "jadd (Num a) (Num b) = Num (a + b)"
| "jadd NaN _ = NaN"
| "jadd _ NaN = NaN"
| "jadd PosInf NegInf = NaN"
| "jadd NegInf PosInf = NaN"
| "jadd PosInf _ = PosInf"
| "jadd NegInf _ = NegInf"
| "jadd _ PosInf = PosInf"
| "jadd _ NegInf = NegInf"

definition jneg :: "jsnum \<Rightarrow> jsnum" where
  "jneg a = (case a of NaN \<Rightarrow> NaN | PosInf \<Rightarrow> NegInf | NegInf \<Rightarrow> PosInf | Num r \<Rightarrow> Num (- r))"

definition jsign :: "jsnum \<Rightarrow> int" where
  "jsign a = (case a of NaN \<Rightarrow> 0 | PosInf \<Rightarrow> 1 | NegInf \<Rightarrow> - 1
               | Num r \<Rightarrow> (if r < 0 then - 1 else if r = 0 then 0 else 1))"

definition jmul :: "jsnum \<Rightarrow> jsnum \<Rightarrow> jsnum" where
  "jmul a b =
     (case (a, b) of
        (Num x, Num y) \<Rightarrow> Num (x * y)
      | (NaN, _) \<Rightarrow> NaN
      | (_, NaN) \<Rightarrow> NaN
      | _ \<Rightarrow> (if jsign a * jsign b = 0 then NaN
              else if jsign a * jsign b > 0 then PosInf else NegInf))"

text \<open>
  Division of numbers.  The sign of a zero is not modelled; a zero divisor counts as
  the positive zero.
\<close>

definition jdiv :: "jsnum \<Rightarrow> jsnum \<Rightarrow> jsnum" where
  "jdiv a b =
     (case (a, b) of
        (NaN, _) \<Rightarrow> NaN
      | (_, NaN) \<Rightarrow> NaN
      | (Num x, Num y) \<Rightarrow>
          (if y \<noteq> 0 then Num (x / y)
           else if x = 0 then NaN else if 0 < x then PosInf else NegInf)
      | (Num x, _) \<Rightarrow> Num 0
      | (_, Num y) \<Rightarrow> (if jsign a * (if y < 0 then - 1 else 1) > 0 then PosInf else NegInf)
      | _ \<Rightarrow> NaN)"

text \<open>
  Rounding to the nearest double, ties to the even significand.  A double has a
  significand of 53 bits: in the binade \<open>2 ^ e \<le> \<bar>x\<bar> < 2 ^ (e + 1)\<close> the doubles are the
  multiples of \<open>2 ^ (e - 52)\<close>, and below \<open>2 ^ -1022\<close> the multiples of \<open>2 ^ -1074\<close>.
  A result that rounds to \<open>2 ^ 1024\<close> or beyond is an infinity.
\<close>

definition roundTiesToEven :: "real \<Rightarrow> int" where
  "roundTiesToEven x =
     (let f = \<lfloor>x\<rfloor>; d = x - of_int f
      in if d < 1 / 2 then f else if 1 / 2 < d then f + 1 else if even f then f else f + 1)"

definition roundDouble :: "real \<Rightarrow> real" where
  "roundDouble x =
     (if x = 0 then 0
      else (let e = max \<lfloor>log 2 \<bar>x\<bar>\<rfloor> (- 1022);
                ulp = 2 powr of_int (e - 52)
            in of_int (roundTiesToEven (x / ulp)) * ulp))"

definition toDouble :: "jsnum \<Rightarrow> jsnum" where
  "toDouble a =
     (case a of
        Num x \<Rightarrow>
          (let d = roundDouble x
           in if 2 ^ 1024 \<le> d then PosInf else if d \<le> - (2 ^ 1024) then NegInf else Num d)
      | _ \<Rightarrow> a)"

text \<open>The operators \<open>+\<close>, \<open>*\<close> and \<open>/\<close> of the source language on doubles.\<close>

definition dadd :: "jsnum \<Rightarrow> jsnum \<Rightarrow> jsnum" where
  "dadd a b = toDouble (jadd a b)"

definition dmul :: "jsnum \<Rightarrow> jsnum \<Rightarrow> jsnum" where
  "dmul a b = toDouble (jmul a b)"

definition ddiv :: "jsnum \<Rightarrow> jsnum \<Rightarrow> jsnum" where
  "ddiv a b = toDouble (jdiv a b)"

text \<open>\<open>a \<le> b\<close> on numbers other than NaN.\<close>

definition jle :: "jsnum \<Rightarrow> jsnum \<Rightarrow> bool" where
  "jle a b =
     (case (a, b) of
        (Num x, Num y) \<Rightarrow> x \<le> y
      | (NegInf, _) \<Rightarrow> True
      | (_, PosInf) \<Rightarrow> True
      | _ \<Rightarrow> False)"

text \<open>\<open>Math.max\<close> and \<open>Math.min\<close> of two arguments: NaN as soon as one argument is NaN.\<close>

definition Math_max :: "jsnum \<Rightarrow> jsnum \<Rightarrow> jsnum" where
  "Math_max a b = (if a = NaN \<or> b = NaN then NaN else if jle a b then b else a)"

definition Math_min :: "jsnum \<Rightarrow> jsnum \<Rightarrow> jsnum" where
  "Math_min a b = (if a = NaN \<or> b = NaN then NaN else if jle a b then a else b)"

text \<open>
  \<open>Math.atan2 y x\<close> on reals.  Signed zeros are not modelled; the one call of the source
  passes \<open>89 - Math.abs x\<close> as second argument, which is never the negative zero.
\<close>

definition Math_atan2 :: "real \<Rightarrow> real \<Rightarrow> real" where
  "Math_atan2 y x =
     (if x > 0 then arctan (y / x)
      else if x < 0 then (if y \<ge> 0 then arctan (y / x) + pi else arctan (y / x) - pi)
      else if y > 0 then pi / 2
      else if y < 0 then - (pi / 2)
      else 0)"

text \<open>
  The values a property read can yield here: \<open>undefined\<close>, a number, or an object
  (functions included).  \<open>ToBoolean\<close> and \<open>ToNumber\<close> are the conversions of the
  language: an object is truthy, and the objects met here (built-in functions and
  \<open>Object.prototype\<close>) convert to NaN, through their string form.
\<close>

datatype jsval = Undefined | NumberVal jsnum | ObjectVal

definition ToBoolean :: "jsval \<Rightarrow> bool" where
  "ToBoolean v =
     (case v of Undefined \<Rightarrow> False
      | NumberVal n \<Rightarrow> (case n of NaN \<Rightarrow> False | Num r \<Rightarrow> r \<noteq> 0 | _ \<Rightarrow> True)
      | ObjectVal \<Rightarrow> True)"

definition ToNumber :: "jsval \<Rightarrow> jsnum" where
  "ToNumber v = (case v of Undefined \<Rightarrow> NaN | NumberVal n \<Rightarrow> n | ObjectVal \<Rightarrow> NaN)"

text \<open>The operator \<open>||\<close>: the left operand when it is truthy, else the right one.\<close>

definition logicalOr :: "jsval \<Rightarrow> jsval \<Rightarrow> jsval" where
  "logicalOr a b = (if ToBoolean a then a else b)"

text \<open>
  Strings are lists of code units below 256 (ASCII and the Latin-1 supplement), which
  covers what the upstream play-by-play feed delivers in the fields used here.
  \<open>toLowerCase\<close> maps the capital letters of that range, \<open>A\<close> to \<open>Z\<close> and the
  accented capitals 192 to 222 without the multiplication sign 215, to the code unit
  32 above.
\<close>

definition toLowerCase :: "string \<Rightarrow> string" where
  "toLowerCase s =
     map (\<lambda>c. let n = (of_char c :: nat)
               in if (65 \<le> n \<and> n \<le> 90) \<or> (192 \<le> n \<and> n \<le> 222 \<and> n \<noteq> 215)
                  then char_of (n + 32) else c) s"

text \<open>\<open>String.prototype.split\<close> with a one-character separator.\<close>

fun split :: "char \<Rightarrow> string \<Rightarrow> string list" where
  "split sep [] = [[]]"
| "split sep (c # cs) =
     (if c = sep then [] # split sep cs
      else (case split sep cs of [] \<Rightarrow> [[c]] | w # ws \<Rightarrow> (c # w) # ws))"

text \<open>
  \<open>Number\<close> applied to a string (the grammar \<open>StringNumericLiteral\<close>): surrounding
  white space (tab, line feed, vertical tab, form feed, carriage return, space and
  no-break space) is dropped; the empty string is 0; then either a binary, octal or
  hexadecimal integer with its prefix, or an optionally signed \<open>Infinity\<close> or decimal
  literal with optional fraction and exponent; anything else is NaN.
\<close>

definition isStrWhiteSpaceChar :: "char \<Rightarrow> bool" where
  "isStrWhiteSpaceChar c = ((of_char c :: nat) \<in> set [9, 10, 11, 12, 13, 32, 160])"

definition trimString :: "string \<Rightarrow> string" where
  "trimString s = rev (dropWhile isStrWhiteSpaceChar (rev (dropWhile isStrWhiteSpaceChar s)))"

definition isDecimalDigit :: "char \<Rightarrow> bool" where
  "isDecimalDigit c = (48 \<le> (of_char c :: nat) \<and> (of_char c :: nat) \<le> 57)"

definition digitValue :: "char \<Rightarrow> nat option" where
  "digitValue c =
     (let n = (of_char c :: nat)
      in if 48 \<le> n \<and> n \<le> 57 then Some (n - 48)
         else if 97 \<le> n \<and> n \<le> 102 then Some (n - 87)
         else if 65 \<le> n \<and> n \<le> 70 then Some (n - 55)
         else None)"

definition isRadixDigit :: "nat \<Rightarrow> char \<Rightarrow> bool" where
  "isRadixDigit b c = (case digitValue c of None \<Rightarrow> False | Some d \<Rightarrow> d < b)"

definition digitsValue :: "nat \<Rightarrow> string \<Rightarrow> nat" where
  "digitsValue b s = foldl (\<lambda>acc c. acc * b + (case digitValue c of None \<Rightarrow> 0 | Some d \<Rightarrow> d)) 0 s"

definition radixInteger :: "nat \<Rightarrow> string \<Rightarrow> nat option" where
  "radixInteger b s =
     (if s \<noteq> [] \<and> list_all (isRadixDigit b) s then Some (digitsValue b s) else None)"

definition nonDecimalIntegerLiteral :: "string \<Rightarrow> nat option" where
  "nonDecimalIntegerLiteral s =
     (case s of
        z # p # ds \<Rightarrow>
          (if z \<noteq> CHR ''0'' then None
           else if p = CHR ''x'' \<or> p = CHR ''X'' then radixInteger 16 ds
           else if p = CHR ''o'' \<or> p = CHR ''O'' then radixInteger 8 ds
           else if p = CHR ''b'' \<or> p = CHR ''B'' then radixInteger 2 ds
           else None)
      | _ \<Rightarrow> None)"

definition signedInteger :: "string \<Rightarrow> int option" where
  "signedInteger s =
     (case s of
        [] \<Rightarrow> None
      | c # r \<Rightarrow>
          (if c = CHR ''+'' then map_option int (radixInteger 10 r)
           else if c = CHR ''-'' then map_option (\<lambda>n. - int n) (radixInteger 10 r)
           else map_option int (radixInteger 10 s)))"

definition exponentPart :: "string \<Rightarrow> int option" where
  "exponentPart s =
     (case s of
        [] \<Rightarrow> Some 0
      | c # r \<Rightarrow> (if c = CHR ''e'' \<or> c = CHR ''E'' then signedInteger r else None))"

definition scale10 :: "real \<Rightarrow> int \<Rightarrow> real" where
  "scale10 v e = (if e \<ge> 0 then v * 10 ^ nat e else v / 10 ^ nat (- e))"

definition strUnsignedDecimalLiteral :: "string \<Rightarrow> jsnum" where
  "strUnsignedDecimalLiteral s =
     (if s = ''Infinity'' then PosInf
      else
        (let ip = takeWhile isDecimalDigit s;
             r1 = dropWhile isDecimalDigit s;
             hasDot = (case r1 of [] \<Rightarrow> False | c # _ \<Rightarrow> c = CHR ''.'');
             fp = (if hasDot then takeWhile isDecimalDigit (tl r1) else []);
             r2 = (if hasDot then dropWhile isDecimalDigit (tl r1) else r1)
         in if ip = [] \<and> fp = [] then NaN
            else (case exponentPart r2 of
                    None \<Rightarrow> NaN
                  | Some e \<Rightarrow>
                      Num (scale10 (real (digitsValue 10 ip)
                                    + real (digitsValue 10 fp) / 10 ^ length fp) e))))"

definition strDecimalLiteral :: "string \<Rightarrow> jsnum" where
  "strDecimalLiteral s =
     (case s of
        [] \<Rightarrow> NaN
      | c # r \<Rightarrow>
          (if c = CHR ''+'' then strUnsignedDecimalLiteral r
           else if c = CHR ''-'' then jneg (strUnsignedDecimalLiteral r)
           else strUnsignedDecimalLiteral s))"

definition Number :: "string \<Rightarrow> jsnum" where
  "Number str =
     (let s = trimString str
      in if s = [] then Num 0
         else (case nonDecimalIntegerLiteral s of
                 Some n \<Rightarrow> Num (real n)
               | None \<Rightarrow> strDecimalLiteral s))"

text \<open>
  \<open>Number.prototype.toString\<close> on an integer (below \<open>10 ^ 21\<close> in absolute value, where
  the source language prints plain decimal digits), and \<open>padStart\<close> with a
  one-character filler.
\<close>

fun digitsOfNat :: "nat \<Rightarrow> string" where
  "digitsOfNat n =
     (if n < 10 then [char_of (48 + n)]
      else digitsOfNat (n div 10) @ [char_of (48 + n mod 10)])"

declare digitsOfNat.simps [simp del]

definition toStringInt :: "int \<Rightarrow> string" where
  "toStringInt i = (if i < 0 then CHR ''-'' # digitsOfNat (nat (- i)) else digitsOfNat (nat i))"

definition padStart :: "nat \<Rightarrow> char \<Rightarrow> string \<Rightarrow> string" where
  "padStart targetLength c s = replicate (targetLength - length s) c @ s"

text \<open>
  The remainder operator \<open>%\<close> on integers: the result has the sign of the dividend.
\<close>

definition jsRemainder :: "int \<Rightarrow> int \<Rightarrow> int" where
  "jsRemainder a b = sgn a * (\<bar>a\<bar> mod \<bar>b\<bar>)"

text \<open>
  \<open>Array.prototype.sort\<close> with a comparison function: a stable sort, here by insertion
  from the right.  An element goes in front of the first element it does not compare
  greater than, so equal elements keep their input order.  Where the comparison is
  consistent on the elements sorted, the stable sorted order is unique and this is
  it; where it is not, the language leaves the order to the host, and only the
  elements of the result, a permutation of the input, are determined.
\<close>

fun insertSorted :: "('a \<Rightarrow> 'a \<Rightarrow> int) \<Rightarrow> 'a \<Rightarrow> 'a list \<Rightarrow> 'a list" where
  "insertSorted cmp x [] = [x]"
| "insertSorted cmp x (y # ys) =
     (if cmp x y \<le> 0 then x # y # ys else y # insertSorted cmp x ys)"

definition sortWith :: "('a \<Rightarrow> 'a \<Rightarrow> int) \<Rightarrow> 'a list \<Rightarrow> 'a list" where
  "sortWith cmp xs = foldr (insertSorted cmp) xs []"

section \<open>Possession metrics and expected goals (statsCalculations)\<close>

subsection \<open>Shot events\<close>

text \<open>
  The interface \<open>Shot\<close>.  The field \<open>type\<close> is a string: at run time the source
  compares it against the string tables \<open>CORSI_EVENTS\<close> and \<open>FENWICK_EVENTS\<close> with
  \<open>Array.prototype.includes\<close>.  The fields \<open>type\<close>, \<open>x\<close> and \<open>y\<close> of the source are
  \<open>shotKind\<close>, \<open>shotX\<close> and \<open>shotY\<close> here.
\<close>

record Shot =
  eventId :: int
  period :: int
  time :: string
  shotKind :: string
  shotX :: real
  shotY :: real
  shooterId :: "int option"
  shooterName :: "string option"
  shotType :: "string option"
  xG :: "real option"

definition CORSI_EVENTS :: "string list" where
  "CORSI_EVENTS = [''shot-on-goal'', ''missed-shot'', ''blocked-shot'', ''goal'']"

definition FENWICK_EVENTS :: "string list" where
  "FENWICK_EVENTS = [''shot-on-goal'', ''missed-shot'', ''goal'']"

definition calculateCorsiFor :: "'a Shot_scheme list \<Rightarrow> nat" where
  "calculateCorsiFor shots = length (filter (\<lambda>shot. shotKind shot \<in> set CORSI_EVENTS) shots)"

definition calculateFenwickFor :: "'a Shot_scheme list \<Rightarrow> nat" where
  "calculateFenwickFor shots =
     length (filter (\<lambda>shot. shotKind shot \<in> set FENWICK_EVENTS) shots)"

subsection \<open>Percentages and PDO\<close>

text \<open>
  The two percentages, in double arithmetic: the sum, the quotient and the product
  are each rounded.
\<close>

definition calculateCorsiPercent :: "real \<Rightarrow> real \<Rightarrow> jsnum" where
  "calculateCorsiPercent corsiFor corsiAgainst =
     (let total = dadd (Num corsiFor) (Num corsiAgainst)
      in if total = Num 0 then Num 50 else dmul (ddiv (Num corsiFor) total) (Num 100))"

definition calculateGoalsForPercent :: "real \<Rightarrow> real \<Rightarrow> jsnum" where
  "calculateGoalsForPercent goalsFor goalsAgainst =
     (let total = dadd (Num goalsFor) (Num goalsAgainst)
      in if total = Num 0 then Num 50 else dmul (ddiv (Num goalsFor) total) (Num 100))"

text \<open>
  \<open>calculatePDO\<close> is kept in exact arithmetic: what is shown of it equates the
  source's two quotients with the same quotients.
\<close>

definition calculatePDO :: "real \<Rightarrow> real \<Rightarrow> real \<Rightarrow> real \<Rightarrow> real" where
  "calculatePDO goalsFor shotsFor goalsAgainst shotsAgainst =
     (let shootingPct = (if shotsFor > 0 then (goalsFor / shotsFor) * 100 else 0);
          savePct = (if shotsAgainst > 0
                     then ((shotsAgainst - goalsAgainst) / shotsAgainst) * 100 else 100)
      in shootingPct + savePct)"

subsection \<open>Expected goals\<close>

text \<open>
  The table \<open>typeMultipliers\<close> is an object literal, so reading a key that is not one of
  its own finds the properties it inherits from \<open>Object.prototype\<close>: functions, and
  under \<open>__proto__\<close> the prototype object itself.
\<close>

definition typeMultipliers :: "(string \<times> real) list" where
  "typeMultipliers =
     [(''slap'', 0.9), (''snap'', 1.1), (''wrist'', 1.0), (''backhand'', 0.8),
      (''tip-in'', 1.3), (''deflected'', 1.2), (''wrap-around'', 0.6)]"

definition Object_prototype_keys :: "string list" where
  "Object_prototype_keys =
     [''constructor'', ''hasOwnProperty'', ''isPrototypeOf'', ''propertyIsEnumerable'',
      ''toLocaleString'', ''toString'', ''valueOf'', ''__proto__'',
      ''__defineGetter__'', ''__defineSetter__'', ''__lookupGetter__'',
      ''__lookupSetter__'']"

definition typeMultipliers_get :: "string \<Rightarrow> jsval" where
  "typeMultipliers_get key =
     (case map_of typeMultipliers key of
        Some m \<Rightarrow> NumberVal (Num m)
      | None \<Rightarrow> (if key \<in> set Object_prototype_keys then ObjectVal else Undefined))"

definition estimateXG :: "real \<Rightarrow> real \<Rightarrow> string option \<Rightarrow> jsnum" where
  "estimateXG x y st =
     (let goalX = 89;
          goalY = 0;
          distance = sqrt ((\<bar>x\<bar> - goalX)\<^sup>2 + (y - goalY)\<^sup>2);
          angle = \<bar>Math_atan2 y (goalX - \<bar>x\<bar>)\<bar> * (180 / pi);
          base = max 0 (0.4 - distance * 0.008);
          adjusted = base * (1 - (angle / 90) * 0.5);
          typed = (case st of
                     None \<Rightarrow> Num adjusted
                   | Some s \<Rightarrow>
                       (if s = [] then Num adjusted
                        else jmul (Num adjusted)
                               (ToNumber (logicalOr (typeMultipliers_get (toLowerCase s))
                                            (NumberVal (Num 1.0))))))
      in Math_min (Math_max typed (Num 0.01)) (Num 0.95))"

subsection \<open>Corsi flow\<close>

datatype Team = Home | Away

record TeamShot = Shot +
  team :: Team

text \<open>The object spread \<open>{ ...s, team }\<close>: all fields of the shot, and the side.\<close>

definition withTeam :: "Team \<Rightarrow> Shot \<Rightarrow> TeamShot" where
  "withTeam t s = Shot.extend s (TeamShot.fields t)"

text \<open>
  The interface \<open>CorsiFlowPoint\<close>; its fields \<open>period\<close>, \<open>time\<close> and \<open>type\<close> are
  \<open>pointPeriod\<close>, \<open>pointTime\<close> and \<open>pointKind\<close> here.
\<close>

record CorsiFlowPoint =
  pointPeriod :: int
  pointTime :: string
  timeRemaining :: string
  pointKind :: string
  homeCorsi :: int
  awayCorsi :: int
  differential :: int

text \<open>
  The comparison function of the sort calls \<open>String.prototype.localeCompare\<close>, whose
  result is the collation of the host and its locale.  It is a parameter here,
  \<open>collate\<close>: the properties below say what they need of it.
\<close>

definition compareShots :: "(string \<Rightarrow> string \<Rightarrow> int) \<Rightarrow> TeamShot \<Rightarrow> TeamShot \<Rightarrow> int" where
  "compareShots collate a b =
     (if period a \<noteq> period b then period a - period b
      else collate (time a) (time b))"

text \<open>
  The \<open>map\<close> callback of \<open>generateCorsiFlow\<close> updates the two counters of the enclosing
  call; here they are passed along the list.
\<close>

fun flowPoints :: "int \<Rightarrow> int \<Rightarrow> TeamShot list \<Rightarrow> CorsiFlowPoint list" where
  "flowPoints h a [] = []"
| "flowPoints h a (shot # rest) =
     (let h' = (if team shot = Home then h + 1 else h);
          a' = (if team shot = Home then a else a + 1)
      in \<lparr>pointPeriod = period shot, pointTime = time shot, timeRemaining = time shot,
          pointKind = shotKind shot, homeCorsi = h', awayCorsi = a',
          differential = h' - a'\<rparr> # flowPoints h' a' rest)"

definition generateCorsiFlow ::
    "(string \<Rightarrow> string \<Rightarrow> int) \<Rightarrow> Shot list \<Rightarrow> Shot list \<Rightarrow> CorsiFlowPoint list" where
  "generateCorsiFlow collate homeShots awayShots =
     (let allShots = sortWith (compareShots collate)
                       (map (withTeam Home) homeShots @ map (withTeam Away) awayShots)
      in flowPoints 0 0 (filter (\<lambda>shot. shotKind shot \<in> set CORSI_EVENTS) allShots))"

section \<open>Rink coordinates and clock times (rinkCoordinates)\<close>

definition normalizeToAttackingZone :: "real \<Rightarrow> real \<Rightarrow> real \<times> real" where
  "normalizeToAttackingZone x y = (if x < 0 then (- x, - y) else (x, y))"

text \<open>The normalisation applied to its own result.\<close>

definition normalizeTwice :: "real \<Rightarrow> real \<Rightarrow> real \<times> real" where
  "normalizeTwice x y =
     (case normalizeToAttackingZone x y of (x', y') \<Rightarrow> normalizeToAttackingZone x' y')"

text \<open>
  \<open>timeToSeconds\<close>.  The array pattern \<open>[minutes, seconds]\<close> reads the first two
  elements of the split; a missing element is \<open>undefined\<close>, which arithmetic converts
  to NaN.  No step of the function can throw, so the result is a number in every case.
\<close>

definition timeToSeconds :: "string \<Rightarrow> int \<Rightarrow> jsnum" where
  "timeToSeconds t p =
     (let parts = map Number (split CHR '':'' t);
          minutes = (case parts of [] \<Rightarrow> NaN | m # _ \<Rightarrow> m);
          seconds = (case parts of _ # s # _ \<Rightarrow> s | _ \<Rightarrow> NaN);
          periodSeconds = (p - 1) * 20 * 60
      in jadd (jadd (Num (of_int periodSeconds)) (jmul minutes (Num 60))) seconds)"

text \<open>
  \<open>secondsToTime\<close> on an integer number of seconds: \<open>Math.floor\<close> of the quotient is
  the floored division.
\<close>

definition secondsToTime :: "int \<Rightarrow> string" where
  "secondsToTime totalSeconds =
     (let minutes = totalSeconds div 60;
          seconds = jsRemainder totalSeconds 60
      in padStart 2 CHR ''0'' (toStringInt minutes) @ '':''
         @ padStart 2 CHR ''0'' (toStringInt seconds))"

text \<open>
  What the clock-time properties speak about: a zero-padded \<open>MM:SS\<close> string (two digits,
  a colon, two digits, the seconds below 60), and the minutes and seconds it shows.
\<close>

definition wellFormedClock :: "string \<Rightarrow> bool" where
  "wellFormedClock t =
     (case t of
        [m1, m0, c, s1, s0] \<Rightarrow>
          isDecimalDigit m1 \<and> isDecimalDigit m0 \<and> c = CHR '':''
          \<and> isDecimalDigit s1 \<and> isDecimalDigit s0 \<and> (of_char s1 :: nat) \<le> 53
      | _ \<Rightarrow> False)"

definition clockMinutes :: "string \<Rightarrow> int" where
  "clockMinutes t = int (digitsValue 10 (take 2 t))"

definition clockSeconds :: "string \<Rightarrow> int" where
  "clockSeconds t = int (digitsValue 10 (take 2 (drop 3 t)))"



text \<open>
  The time a clock string shows, in seconds, and what the flow properties need of the
  host's collation: on well-formed clock strings it is the order of the times shown.
  Every collation orders the digits by value, so every host meets this.
\<close>

definition clockTime :: "string \<Rightarrow> int" where
  "clockTime t = clockMinutes t * 60 + clockSeconds t"

definition ordersClockStrings :: "(string \<Rightarrow> string \<Rightarrow> int) \<Rightarrow> bool" where
  "ordersClockStrings collate =
     (\<forall>t u. wellFormedClock t \<longrightarrow> wellFormedClock u \<longrightarrow>
        (collate t u \<le> 0) = (clockTime t \<le> clockTime u))"

text \<open>
  One such collation, for the examples: strings are compared character by character,
  the colon in front of the digits and the digits by value, as the root collation of
  the host orders the characters of clock strings.  (Other characters are ranked by
  code unit, which is not said of any host.)
\<close>

definition collationRank :: "char \<Rightarrow> nat" where
  "collationRank c = (if c = CHR '':'' then 0 else 1 + of_char c)"

fun clockCollation :: "string \<Rightarrow> string \<Rightarrow> int" where
  "clockCollation [] [] = 0"
| "clockCollation [] (d # ds) = - 1"
| "clockCollation (c # cs) [] = 1"
| "clockCollation (c # cs) (d # ds) =
     (if collationRank c < collationRank d then - 1
      else if collationRank d < collationRank c then 1
      else clockCollation cs ds)"

text \<open>
  The orders the flow properties speak about: a point is strictly before another when
  its period is smaller, or the periods agree and its clock time is smaller; it is not
  after the other when ties of the clock time are allowed as well.
\<close>

definition strictlyBefore :: "CorsiFlowPoint \<Rightarrow> CorsiFlowPoint \<Rightarrow> bool" where
  "strictlyBefore p q =
     (pointPeriod p < pointPeriod q
      \<or> (pointPeriod p = pointPeriod q \<and> clockTime (pointTime p) < clockTime (pointTime q)))"

definition notAfter :: "CorsiFlowPoint \<Rightarrow> CorsiFlowPoint \<Rightarrow> bool" where
  "notAfter p q =
     (pointPeriod p < pointPeriod q
      \<or> (pointPeriod p = pointPeriod q \<and> clockTime (pointTime p) \<le> clockTime (pointTime q)))"

text \<open>The same order on the shots that are sorted.\<close>

definition shotNotAfter :: "TeamShot \<Rightarrow> TeamShot \<Rightarrow> bool" where
  "shotNotAfter a b =
     (period a < period b \<or> (period a = period b \<and> clockTime (time a) \<le> clockTime (time b)))"

definition countersNotAbove :: "CorsiFlowPoint \<Rightarrow> CorsiFlowPoint \<Rightarrow> bool" where
  "countersNotAbove p q = (homeCorsi p \<le> homeCorsi q \<and> awayCorsi p \<le> awayCorsi q)"

text \<open>The shots of the examples below.\<close>

definition exampleShot :: "string \<Rightarrow> int \<Rightarrow> string \<Rightarrow> Shot" where
  "exampleShot kind p t =
     \<lparr>eventId = 1, period = p, time = t, shotKind = kind, shotX = 0, shotY = 0,
      shooterId = None, shooterName = None, shotType = None, xG = None\<rparr>"

section \<open>Properties of the rounding to doubles\<close>

subsection \<open>Nearest integer and nearest double\<close>

lemma roundTiesToEven_near:
  assumes "\<bar>y - of_int z\<bar> < 1 / 2"
  shows "roundTiesToEven y = z"
proof (cases "of_int z \<le> y")
  case True
  with assms have "\<lfloor>y\<rfloor> = z" by (intro floor_unique) linarith+
  moreover from True assms have "y - of_int z < 1 / 2" by linarith
  ultimately show ?thesis by (simp add: roundTiesToEven_def Let_def)
next
  case False
  with assms have a: "real_of_int z - 1 \<le> y" "y < real_of_int z" by linarith+
  then have f: "\<lfloor>y\<rfloor> = z - 1" by (intro floor_unique) simp_all
  from False assms have "1 / 2 < y - (real_of_int z - 1)" by linarith
  with f show ?thesis by (simp add: roundTiesToEven_def Let_def)
qed

lemma roundTiesToEven_of_int: "roundTiesToEven (of_int z) = z"
  by (rule roundTiesToEven_near) simp

lemma roundTiesToEven_error: "\<bar>of_int (roundTiesToEven y) - y\<bar> \<le> 1 / 2"
proof -
  have "of_int \<lfloor>y\<rfloor> \<le> y" "y < of_int \<lfloor>y\<rfloor> + 1" by linarith+
  then show ?thesis
    by (auto simp: roundTiesToEven_def Let_def)
qed

lemma two_powr_neg_nat: "(2 :: real) powr (- real j) = 1 / 2 ^ j"
  by (simp add: powr_minus powr_realpow inverse_eq_divide)

lemma roundDouble_scaled:
  assumes j: "j \<le> 1074"
    and lo: "2 ^ 52 \<le> \<bar>x\<bar> * 2 ^ j"
    and hi: "\<bar>x\<bar> * 2 ^ j < 2 ^ 53"
    and near: "\<bar>x * 2 ^ j - of_int z\<bar> < 1 / 2"
  shows "roundDouble x = of_int z / 2 ^ j"
proof -
  have x: "x \<noteq> 0" using lo by auto
  then have pos: "0 < \<bar>x\<bar>" by simp
  have p52: "(2 :: real) powr of_int (52 - int j) = 2 ^ 52 / 2 ^ j"
    by (simp add: powr_diff powr_realpow)
  have p53: "(2 :: real) powr (of_int (52 - int j) + 1) = 2 ^ 53 / 2 ^ j"
  proof -
    have "(of_int (52 - int j) + 1 :: real) = 53 - real j" by simp
    then show ?thesis by (simp only: powr_diff) (simp add: powr_realpow)
  qed
  have "2 powr of_int (52 - int j) \<le> \<bar>x\<bar>"
    unfolding p52 using lo by (simp add: field_simps)
  moreover have "\<bar>x\<bar> < 2 powr (of_int (52 - int j) + 1)"
    unfolding p53 using hi by (simp add: field_simps)
  ultimately have e: "\<lfloor>log 2 \<bar>x\<bar>\<rfloor> = 52 - int j"
    using floor_log_eq_powr_iff [OF pos, of 2 "52 - int j"] by simp
  have m: "max (52 - int j) (- 1022) = 52 - int j" using j by simp
  have ulp: "(2 :: real) powr of_int (52 - int j - 52) = 1 / 2 ^ j"
    using two_powr_neg_nat [of j] by simp
  have "roundDouble x = of_int (roundTiesToEven (x / (1 / 2 ^ j))) * (1 / 2 ^ j)"
    using x by (simp only: roundDouble_def e m ulp Let_def if_False)
  also have "x / (1 / 2 ^ j) = x * 2 ^ j" by simp
  also have "roundTiesToEven (x * 2 ^ j) = z" using near by (rule roundTiesToEven_near)
  finally show ?thesis by simp
qed

subsection \<open>Integers are exact; the rounding error\<close>

lemma binade_bounds:
  assumes "x \<noteq> 0"
  shows "2 powr of_int \<lfloor>log 2 \<bar>x\<bar>\<rfloor> \<le> \<bar>x\<bar>"
proof -
  from assms have pos: "0 < \<bar>x\<bar>" by simp
  have "of_int \<lfloor>log 2 \<bar>x\<bar>\<rfloor> \<le> log 2 \<bar>x\<bar>" by simp
  then show ?thesis
    using le_log_iff [of 2 "\<bar>x\<bar>" "of_int \<lfloor>log 2 \<bar>x\<bar>\<rfloor>"] pos by simp
qed

lemma roundDouble_of_int:
  assumes "\<bar>z\<bar> < 2 ^ 53"
  shows "roundDouble (of_int z) = of_int z"
proof (cases "z = 0")
  case True
  then show ?thesis by (simp add: roundDouble_def)
next
  case False
  define a :: real where "a = \<bar>of_int z\<bar>"
  define e where "e = \<lfloor>log 2 a\<rfloor>"
  have a1: "1 \<le> a" using False by (simp add: a_def)
  then have pos: "0 < a" by simp
  have a53: "a < 2 ^ 53"
  proof -
    from assms have "real_of_int \<bar>z\<bar> < real_of_int (2 ^ 53)" by (simp only: of_int_less_iff)
    then show ?thesis by (simp add: a_def)
  qed
  have e0: "0 \<le> e" using a1 pos by (simp add: e_def)
  have "log 2 a < 53"
    using log_less_iff [of 2 a 53] pos a53 by simp
  then have e52: "e \<le> 52" by (simp add: e_def floor_le_iff)
  define j where "j = nat (52 - e)"
  have ej: "e - 52 = - int j" using e52 by (simp add: j_def)
  have m: "max e (- 1022) = e" using e0 by simp
  have ulp: "(2 :: real) powr of_int (e - 52) = 1 / 2 ^ j"
    unfolding ej using two_powr_neg_nat [of j] by simp
  have nz: "real_of_int z \<noteq> 0" using False by simp
  have "roundDouble (of_int z)
      = of_int (roundTiesToEven (of_int z / (1 / 2 ^ j))) * (1 / 2 ^ j)"
    using nz by (simp only: roundDouble_def a_def [symmetric] e_def [symmetric] m ulp Let_def
        if_False)
  also have "real_of_int z / (1 / 2 ^ j) = of_int (z * 2 ^ j)" by simp
  also have "roundTiesToEven (of_int (z * 2 ^ j)) = z * 2 ^ j" by (rule roundTiesToEven_of_int)
  finally show ?thesis by simp
qed

lemma roundDouble_error:
  assumes "x \<noteq> 0"
  shows "\<bar>roundDouble x - x\<bar> \<le> 2 powr of_int (max \<lfloor>log 2 \<bar>x\<bar>\<rfloor> (- 1022) - 52) / 2"
proof -
  define ulp :: real where "ulp = 2 powr of_int (max \<lfloor>log 2 \<bar>x\<bar>\<rfloor> (- 1022) - 52)"
  have pos: "0 < ulp" by (simp add: ulp_def)
  have rd: "roundDouble x = of_int (roundTiesToEven (x / ulp)) * ulp"
    using assms by (simp add: roundDouble_def Let_def ulp_def)
  have "roundDouble x - x = (of_int (roundTiesToEven (x / ulp)) - x / ulp) * ulp"
    using pos by (simp add: rd field_simps)
  then have "\<bar>roundDouble x - x\<bar> = \<bar>of_int (roundTiesToEven (x / ulp)) - x / ulp\<bar> * ulp"
    using pos by (simp add: abs_mult)
  also have "\<dots> \<le> 1 / 2 * ulp"
    using roundTiesToEven_error [of "x / ulp"] pos by (intro mult_right_mono) simp_all
  finally show ?thesis by (simp add: ulp_def)
qed

lemma roundDouble_bound: "\<bar>roundDouble x\<bar> \<le> 2 * \<bar>x\<bar> + 1"
proof (cases "x = 0")
  case True
  then show ?thesis by (simp add: roundDouble_def)
next
  case False
  define e where "e = \<lfloor>log 2 \<bar>x\<bar>\<rfloor>"
  have "2 powr of_int (max e (- 1022) - 52) \<le> \<bar>x\<bar> + 1"
  proof (cases "- 1022 \<le> e")
    case True
    then have m: "max e (- 1022) = e" by simp
    have "(2 :: real) powr of_int (max e (- 1022) - 52) \<le> 2 powr of_int e"
      unfolding m by (intro powr_mono) simp_all
    also have "\<dots> \<le> \<bar>x\<bar>"
      unfolding e_def using False by (rule binade_bounds)
    finally show ?thesis by linarith
  next
    case small: False
    then have m: "max e (- 1022) = - 1022" by simp
    have "(2 :: real) powr of_int (max e (- 1022) - 52) \<le> 2 powr 0"
      unfolding m by (intro powr_mono) simp_all
    also have "\<dots> = 1" by simp
    finally show ?thesis by linarith
  qed
  then have u: "2 powr of_int (max e (- 1022) - 52) / 2 \<le> (\<bar>x\<bar> + 1) / 2"
    by (rule divide_right_mono) simp
  have "\<bar>roundDouble x - x\<bar> \<le> 2 powr of_int (max e (- 1022) - 52) / 2"
    unfolding e_def using False by (rule roundDouble_error)
  also note u
  finally have d: "\<bar>roundDouble x - x\<bar> \<le> (\<bar>x\<bar> + 1) / 2" .
  define A B C where "A = \<bar>roundDouble x\<bar>" and "B = \<bar>roundDouble x - x\<bar>" and "C = \<bar>x\<bar>"
  have "A = \<bar>(roundDouble x - x) + x\<bar>" by (simp add: A_def)
  also have "\<dots> \<le> B + C" unfolding B_def C_def by (rule abs_triangle_ineq)
  finally have "A \<le> B + C" .
  moreover have "2 * B \<le> C + 1" using d by (simp add: B_def C_def)
  moreover have "0 \<le> C" by (simp add: C_def)
  ultimately have "A \<le> 2 * C + 1" by linarith
  then show ?thesis by (simp only: A_def C_def)
qed

lemma roundDouble_relative:
  assumes "2 powr (- 1022) \<le> \<bar>x\<bar>"
  shows "\<bar>roundDouble x - x\<bar> \<le> \<bar>x\<bar> / 2 ^ 53"
proof -
  have nz: "x \<noteq> 0" using assms by auto
  then have pos: "0 < \<bar>x\<bar>" by simp
  define e where "e = \<lfloor>log 2 \<bar>x\<bar>\<rfloor>"
  have "real_of_int (- 1022) \<le> log 2 \<bar>x\<bar>"
    using le_log_iff [of 2 "\<bar>x\<bar>" "- 1022"] pos assms by simp
  then have "- 1022 \<le> e" unfolding e_def by (simp only: le_floor_iff)
  then have m: "max e (- 1022) = e" by simp
  have "(2 :: real) powr of_int (e - 52) = 2 powr of_int e / 2 ^ 52"
    by (simp add: powr_diff)
  also have "\<dots> \<le> \<bar>x\<bar> / 2 ^ 52"
    using binade_bounds [OF nz] by (simp add: e_def divide_right_mono)
  finally have u: "2 powr of_int (e - 52) / 2 \<le> \<bar>x\<bar> / 2 ^ 53" by simp
  have "\<bar>roundDouble x - x\<bar> \<le> 2 powr of_int (max e (- 1022) - 52) / 2"
    unfolding e_def using nz by (rule roundDouble_error)
  also have "\<dots> = 2 powr of_int (e - 52) / 2" by (simp only: m)
  also note u
  finally show ?thesis .
qed

subsection \<open>The percentage of two counts\<close>

lemma toDouble_finite:
  assumes "\<bar>roundDouble x\<bar> < 2 ^ 1024"
  shows "toDouble (Num x) = Num (roundDouble x)"
proof -
  from assms have "\<not> 2 ^ 1024 \<le> roundDouble x" "\<not> roundDouble x \<le> - (2 ^ 1024)"
    by linarith+
  then show ?thesis by (simp add: toDouble_def Let_def)
qed

lemma toDouble_bounded:
  assumes "\<bar>x\<bar> \<le> 1000"
  shows "toDouble (Num x) = Num (roundDouble x)"
proof (rule toDouble_finite)
  have "\<bar>roundDouble x\<bar> \<le> 2 * \<bar>x\<bar> + 1" by (rule roundDouble_bound)
  also have "\<dots> \<le> 2001" using assms by simp
  also have "\<dots> < (2 :: real) ^ 1024" by simp
  finally show "\<bar>roundDouble x\<bar> < 2 ^ 1024" .
qed

lemma toDouble_count:
  assumes "k < 2 ^ 53"
  shows "toDouble (Num (real k)) = Num (real k)"
proof -
  have "\<bar>int k\<bar> < 2 ^ 53" using assms by simp
  then have "roundDouble (of_int (int k)) = of_int (int k)" by (rule roundDouble_of_int)
  then have exact: "roundDouble (real k) = real k" by simp
  have "real k < 2 ^ 53" using assms by (simp add: of_nat_less_numeral_power_cancel_iff)
  also have "\<dots> < (2 :: real) ^ 1024" by simp
  finally have "\<bar>roundDouble (real k)\<bar> < 2 ^ 1024" by (simp add: exact)
  then show ?thesis by (simp add: toDouble_finite exact)
qed

lemma percent_on_counts:
  assumes "0 < n + m" "n + m < 2 ^ 53"
  shows "dmul (ddiv (Num (real n)) (dadd (Num (real n)) (Num (real m)))) (Num 100)
         = Num (roundDouble (roundDouble (real n / real (n + m)) * 100))"
proof -
  let ?q = "real n / real (n + m)"
  have total: "dadd (Num (real n)) (Num (real m)) = Num (real (n + m))"
    using toDouble_count [OF assms(2)] by (simp add: dadd_def)
  have le: "real n \<le> real (n + m)" by simp
  have pos: "0 < real (n + m)" using assms(1) by (simp only: of_nat_0_less_iff)
  have q: "0 \<le> ?q" "?q \<le> 1"
    using le pos by (simp_all only: divide_le_eq_1_pos zero_le_divide_iff) simp
  have quot: "ddiv (Num (real n)) (Num (real (n + m))) = Num (roundDouble ?q)"
  proof -
    have "real (n + m) \<noteq> 0" using pos by (rule less_imp_neq [THEN not_sym])
    then have "jdiv (Num (real n)) (Num (real (n + m))) = Num ?q"
      by (simp add: jdiv_def)
    moreover have "toDouble (Num ?q) = Num (roundDouble ?q)"
      using q by (intro toDouble_bounded) simp
    ultimately show ?thesis by (simp add: ddiv_def)
  qed
  have "\<bar>roundDouble ?q\<bar> \<le> 2 * \<bar>?q\<bar> + 1" by (rule roundDouble_bound)
  also have "\<dots> \<le> 3" using q by simp
  finally have "\<bar>roundDouble ?q * 100\<bar> \<le> 1000" by simp
  then have "toDouble (Num (roundDouble ?q * 100)) = Num (roundDouble (roundDouble ?q * 100))"
    by (rule toDouble_bounded)
  then have "dmul (Num (roundDouble ?q)) (Num 100)
      = Num (roundDouble (roundDouble ?q * 100))"
    by (simp add: dmul_def jmul_def)
  then show ?thesis by (simp only: total quot)
qed

lemma percent_zero_counts:
  assumes "n + m < 2 ^ 53"
  shows "dadd (Num (real n)) (Num (real m)) = Num 0 \<longleftrightarrow> n + m = 0"
proof -
  have "dadd (Num (real n)) (Num (real m)) = Num (real (n + m))"
    using toDouble_count [OF assms] by (simp add: dadd_def)
  moreover have "real (n + m) = 0 \<longleftrightarrow> n + m = 0" by (rule of_nat_eq_0_iff)
  ultimately show ?thesis by (simp only: jsnum.inject)
qed

lemma roundDouble_29_percent:
  "roundDouble (roundDouble (29 / 100) * 100) = 8162774324609023 / 2 ^ 48"
proof -
  have "roundDouble (29 / 100) = of_int 5224175567749775 / 2 ^ 54"
    by (rule roundDouble_scaled) simp_all
  moreover have "roundDouble (of_int 5224175567749775 / 2 ^ 54 * 100)
      = of_int 8162774324609023 / 2 ^ 48"
    by (rule roundDouble_scaled) simp_all
  ultimately show ?thesis by (simp only:)
qed

lemma roundDouble_half_percent: "roundDouble (roundDouble (1 / 2) * 100) = 50"
proof -
  have "roundDouble (1 / 2) = of_int (2 ^ 52) / 2 ^ 53"
    by (rule roundDouble_scaled) simp_all
  then have half: "roundDouble (1 / 2) = 1 / 2" by simp
  have "roundDouble (of_int 50) = of_int 50"
    by (rule roundDouble_of_int) simp
  then have "roundDouble 50 = 50" by simp
  moreover have "(1 / 2 :: real) * 100 = 50" by simp
  ultimately show ?thesis by (simp only: half)
qed

lemma abs_le_bounds:
  fixes a b :: real
  assumes "\<bar>a\<bar> \<le> b"
  shows "a \<le> b" "- a \<le> b"
  using assms by (simp_all only: abs_le_iff)

lemma two_rounding_errors:
  fixes q q' p :: real
  assumes q: "0 \<le> q"
    and f1: "\<bar>q' - q\<bar> \<le> q / 2 ^ 53"
    and f2: "\<bar>p - q' * 100\<bar> \<le> \<bar>q' * 100\<bar> / 2 ^ 53"
  shows "\<bar>p - 100 * q\<bar> \<le> 100 * q / 2 ^ 51"
proof -
  have p53: "(2 :: real) ^ 53 = 9007199254740992" and p51: "(2 :: real) ^ 51 = 2251799813685248"
    by simp_all
  from abs_le_bounds [OF f1]
  have a: "q' - q \<le> q / 9007199254740992" "- (q' - q) \<le> q / 9007199254740992"
    unfolding p53 .
  with q have q': "0 \<le> q'" by linarith
  then have "\<bar>q' * 100\<bar> = q' * 100" by simp
  with f2 have "\<bar>p - q' * 100\<bar> \<le> q' * 100 / 2 ^ 53" by (simp only:)
  from abs_le_bounds [OF this]
  have b: "p - q' * 100 \<le> q' * 100 / 9007199254740992"
    "- (p - q' * 100) \<le> q' * 100 / 9007199254740992"
    unfolding p53 .
  from a b q have "p - 100 * q \<le> 100 * q / 2251799813685248"
    "- (p - 100 * q) \<le> 100 * q / 2251799813685248"
    by linarith+
  then show ?thesis unfolding p51 by (simp only: abs_le_iff)
qed

lemma percent_error:
  assumes "0 < n + m" "n + m < 2 ^ 53"
  shows "\<bar>roundDouble (roundDouble (real n / real (n + m)) * 100) - 100 * real n / real (n + m)\<bar>
         \<le> 100 * real n / real (n + m) / 2 ^ 51"
proof (cases "n = 0")
  case True
  then show ?thesis by (simp add: roundDouble_def)
next
  case False
  define q where "q = real n / real (n + m)"
  define q' where "q' = roundDouble q"
  have t: "0 < real (n + m)" using assms(1) by (simp only: of_nat_0_less_iff)
  have t53: "real (n + m) < 2 ^ 53"
    using assms(2) by (simp add: of_nat_less_numeral_power_cancel_iff)
  have n1: "1 \<le> real n" using False by simp
  have tiny: "(2 :: real) powr (- 1022) \<le> 1 / 2 ^ 53"
  proof -
    have "(2 :: real) powr (- 1022) = 1 / 2 ^ 1022"
      using two_powr_neg_nat [of 1022] by simp
    then show ?thesis by simp
  qed
  have "1 / 2 ^ 53 \<le> 1 / real (n + m)"
    using t t53 by (intro divide_left_mono) simp_all
  also have "\<dots> \<le> q"
    unfolding q_def using n1 t by (intro divide_right_mono) simp_all
  finally have qlow: "1 / 2 ^ 53 \<le> q" .
  then have qpos: "0 < q" by (rule less_le_trans [rotated]) simp
  have f1: "\<bar>q' - q\<bar> \<le> q / 2 ^ 53"
  proof -
    have "2 powr (- 1022) \<le> \<bar>q\<bar>" using tiny qlow qpos by linarith
    then have "\<bar>roundDouble q - q\<bar> \<le> \<bar>q\<bar> / 2 ^ 53" by (rule roundDouble_relative)
    then show ?thesis using qpos by (simp add: q'_def)
  qed
  from abs_le_bounds(2) [OF this] have "- (q' - q) \<le> q / 9007199254740992" by simp
  with qpos have half: "q / 2 \<le> q'" by linarith
  have f2: "\<bar>roundDouble (q' * 100) - q' * 100\<bar> \<le> \<bar>q' * 100\<bar> / 2 ^ 53"
  proof (rule roundDouble_relative)
    have "2 powr (- 1022) \<le> q" using tiny qlow by linarith
    also have "\<dots> \<le> q' * 100" using half qpos by linarith
    also have "\<dots> \<le> \<bar>q' * 100\<bar>" by simp
    finally show "2 powr (- 1022) \<le> \<bar>q' * 100\<bar>" .
  qed
  have "\<bar>roundDouble (q' * 100) - 100 * q\<bar> \<le> 100 * q / 2 ^ 51"
    using qpos f1 f2 by (intro two_rounding_errors) simp_all
  then show ?thesis by (simp add: q'_def q_def)
qed

section \<open>Properties of the possession metrics\<close>

lemma FENWICK_subset_CORSI: "set FENWICK_EVENTS \<subseteq> set CORSI_EVENTS"
  by (simp add: FENWICK_EVENTS_def CORSI_EVENTS_def)

lemma length_filter_mono:
  "(\<And>x. P x \<Longrightarrow> Q x) \<Longrightarrow> length (filter P xs) \<le> length (filter Q xs)"
  by (induction xs) auto

text \<open>
  C3.  For every finite list of shot events, the Fenwick count is at most the Corsi
  count: every kind counted by \<open>calculateFenwickFor\<close> is also counted by
  \<open>calculateCorsiFor\<close>.
\<close>

theorem fenwick_le_corsi: "calculateFenwickFor shots \<le> calculateCorsiFor shots"
proof -
  have "\<And>shot. shotKind shot \<in> set FENWICK_EVENTS \<Longrightarrow> shotKind shot \<in> set CORSI_EVENTS"
    using FENWICK_subset_CORSI by blast
  then show ?thesis
    unfolding calculateFenwickFor_def calculateCorsiFor_def
    by (rule length_filter_mono)
qed

text \<open>
  C4, as stated, fails: the source multiplies the rounded quotient by 100, it does not
  divide the product \<open>100 * for\<close> by the sum.  At \<open>(29, 71)\<close> the quotient \<open>29 / 100\<close> is
  not a double; it is rounded down, and its product with 100 rounds to
  \<open>8162774324609023 / 2 ^ 48\<close>, which prints as 28.999999999999996, where
  \<open>100 * 29 / (29 + 71)\<close> is 29.
\<close>

theorem percent_rounding_counterexample:
  "calculateCorsiPercent 29 71 \<noteq> Num (100 * 29 / (29 + 71))"
proof -
  have "(0 :: nat) < 29 + 71" "(29 :: nat) + 71 < 2 ^ 53" by simp_all
  from percent_on_counts [OF this] percent_zero_counts [OF this(2)]
  have "calculateCorsiPercent (real 29) (real 71)
      = Num (roundDouble (roundDouble (real 29 / real (29 + 71)) * 100))"
    by (simp add: calculateCorsiPercent_def Let_def)
  then have "calculateCorsiPercent 29 71 = Num (8162774324609023 / 2 ^ 48)"
    using roundDouble_29_percent by simp
  then show ?thesis by simp
qed

text \<open>
  C4, amended.  \<open>calculateCorsiPercent\<close> (the spec's \<open>percentFor\<close>) returns 50 when
  its two arguments sum to 0.  Otherwise, on counts with a sum below \<open>2 ^ 53\<close>, it
  returns the double product with 100 of the double quotient \<open>for / (for + against)\<close>;
  this is within one part in \<open>2 ^ 51\<close> of \<open>100 * for / (for + against)\<close> and need not
  be equal to it.  \<open>calculateGoalsForPercent\<close> satisfies the same equations, and both
  return 50 at \<open>(0, 0)\<close>.
\<close>

theorem percent_formula:
  "(f + a = 0 \<longrightarrow>
      calculateCorsiPercent f a = Num 50 \<and> calculateGoalsForPercent f a = Num 50)
   \<and> (0 < n + m \<and> n + m < 2 ^ 53 \<longrightarrow>
        calculateCorsiPercent (real n) (real m)
          = Num (roundDouble (roundDouble (real n / real (n + m)) * 100))
        \<and> calculateGoalsForPercent (real n) (real m)
          = Num (roundDouble (roundDouble (real n / real (n + m)) * 100))
        \<and> \<bar>roundDouble (roundDouble (real n / real (n + m)) * 100)
             - 100 * real n / real (n + m)\<bar>
           \<le> 100 * real n / real (n + m) / 2 ^ 51)
   \<and> calculateCorsiPercent 0 0 = Num 50 \<and> calculateGoalsForPercent 0 0 = Num 50"
proof -
  have zero: "dadd (Num x) (Num y) = Num 0" if "x + y = 0" for x y :: real
    using that by (simp add: dadd_def toDouble_def roundDouble_def)
  have first: "calculateCorsiPercent x y = Num 50 \<and> calculateGoalsForPercent x y = Num 50"
    if "x + y = 0" for x y :: real
    using zero [OF that]
    by (simp add: calculateCorsiPercent_def calculateGoalsForPercent_def)
  have at_zero: "calculateCorsiPercent 0 0 = Num 50" "calculateGoalsForPercent 0 0 = Num 50"
    using first [of 0 0] by simp_all
  have second: "calculateCorsiPercent (real n) (real m)
          = Num (roundDouble (roundDouble (real n / real (n + m)) * 100))
        \<and> calculateGoalsForPercent (real n) (real m)
          = Num (roundDouble (roundDouble (real n / real (n + m)) * 100))
        \<and> \<bar>roundDouble (roundDouble (real n / real (n + m)) * 100)
             - 100 * real n / real (n + m)\<bar>
           \<le> 100 * real n / real (n + m) / 2 ^ 51"
    if h: "0 < n + m \<and> n + m < 2 ^ 53"
  proof -
    from h have pos: "0 < n + m" and small: "n + m < 2 ^ 53" by simp_all
    from pos have "n + m \<noteq> 0" by simp
    then have nz: "dadd (Num (real n)) (Num (real m)) \<noteq> Num 0"
      by (simp only: percent_zero_counts [OF small] not_False_eq_True)
    have "calculateCorsiPercent (real n) (real m)
        = dmul (ddiv (Num (real n)) (dadd (Num (real n)) (Num (real m)))) (Num 100)"
      "calculateGoalsForPercent (real n) (real m)
        = dmul (ddiv (Num (real n)) (dadd (Num (real n)) (Num (real m)))) (Num 100)"
      using nz by (simp_all add: calculateCorsiPercent_def calculateGoalsForPercent_def Let_def)
    then show ?thesis
      using percent_on_counts [OF pos small] percent_error [OF pos small]
      by (simp only:)
  qed
  from first [of f a] second at_zero show ?thesis by blast
qed

theorem percent_formula_witness:
  "calculateCorsiPercent 29 71 = Num (8162774324609023 / 2 ^ 48)
   \<and> calculateGoalsForPercent 1 1 = Num 50
   \<and> calculateCorsiPercent 3 (- 3) = Num 50
   \<and> calculateCorsiPercent 0 0 = Num 50"
proof -
  have a: "calculateCorsiPercent (real 29) (real 71)
      = Num (roundDouble (roundDouble (real 29 / real (29 + 71)) * 100))"
    using percent_formula [of 0 0 29 71] by simp
  have b: "calculateGoalsForPercent (real 1) (real 1)
      = Num (roundDouble (roundDouble (real 1 / real (1 + 1)) * 100))"
    using percent_formula [of 0 0 1 1] by simp
  have c: "calculateCorsiPercent 3 (- 3) = Num 50" "calculateCorsiPercent 0 0 = Num 50"
    using percent_formula [of 3 "- 3" 0 0] by simp_all
  from a have "calculateCorsiPercent 29 71 = Num (8162774324609023 / 2 ^ 48)"
    using roundDouble_29_percent by simp
  moreover from b have "calculateGoalsForPercent 1 1 = Num 50"
    using roundDouble_half_percent by simp
  ultimately show ?thesis using c by simp
qed

text \<open>
  C5.  On shot counts, which are not negative, \<open>calculatePDO\<close> returns the sum of the
  shooting percentage, \<open>goalsFor / shotsFor * 100\<close>, or 0 when \<open>shotsFor = 0\<close>, and the
  save percentage, \<open>(shotsAgainst - goalsAgainst) / shotsAgainst * 100\<close>, or 100 when
  \<open>shotsAgainst = 0\<close>; in particular it returns 100 at \<open>(0, 0, 0, 0)\<close>.  The two
  quotients are the source's own expressions, operation for operation.
\<close>

theorem pdo_formula:
  "(0 \<le> sf \<and> 0 \<le> sa \<longrightarrow>
      calculatePDO gf sf ga sa
        = (if sf = 0 then 0 else gf / sf * 100)
          + (if sa = 0 then 100 else (sa - ga) / sa * 100))
   \<and> calculatePDO 0 0 0 0 = 100"
  by (simp add: calculatePDO_def Let_def)

theorem pdo_formula_witness:
  "calculatePDO 1 10 1 20 = 105 \<and> calculatePDO 3 0 0 0 = 100 \<and> calculatePDO 0 0 2 8 = 75"
  using pdo_formula [of 10 20 1 1] pdo_formula [of 0 0 3 0] pdo_formula [of 0 8 0 2]
  by simp

section \<open>Properties of the coordinate normalisation\<close>

text \<open>
  C6.  \<open>normalizeToAttackingZone x y\<close> is \<open>(-x, -y)\<close> when \<open>x < 0\<close> and \<open>(x, y)\<close>
  otherwise; hence a point whose first coordinate is not negative, as every result of
  the function is, is left unchanged.
\<close>

theorem normalize_cases:
  "(x < 0 \<longrightarrow> normalizeToAttackingZone x y = (- x, - y))
   \<and> (\<not> x < 0 \<longrightarrow> normalizeToAttackingZone x y = (x, y))
   \<and> (0 \<le> x' \<longrightarrow> normalizeToAttackingZone x' y' = (x', y'))"
  by (simp add: normalizeToAttackingZone_def)

theorem normalize_cases_witness:
  "normalizeToAttackingZone (- 30) 10 = (30, - 10)
   \<and> normalizeToAttackingZone 30 10 = (30, 10)
   \<and> normalizeToAttackingZone 0 (- 5) = (0, - 5)"
  using normalize_cases [of "- 30" 10 0 "- 5"] normalize_cases [of 30 10 30 10] by simp

text \<open>
  C7, as stated, fails: no point \<open>(0, y)\<close> is moved by applying the normalisation
  twice.
\<close>

theorem normalize_twice_boundary_counterexample:
  "\<not> (\<exists>y. normalizeTwice 0 y \<noteq> (0, y))"
  by (simp add: normalizeTwice_def normalizeToAttackingZone_def)

text \<open>
  C7, amended.  The normalisation composed with itself is the identity on the points
  with \<open>x = 0\<close>, and on every point with \<open>x \<ge> 0\<close>; it is not the identity on the points
  with \<open>x < 0\<close>, which it sends to \<open>(-x, -y)\<close>.
\<close>

theorem normalize_twice:
  "normalizeTwice 0 y = (0, y)
   \<and> (0 \<le> x \<longrightarrow> normalizeTwice x y = (x, y))
   \<and> (x < 0 \<longrightarrow> normalizeTwice x y = (- x, - y) \<and> normalizeTwice x y \<noteq> (x, y))"
  by (simp add: normalizeTwice_def normalizeToAttackingZone_def)

theorem normalize_twice_witness:
  "normalizeTwice 0 7 = (0, 7) \<and> normalizeTwice 5 7 = (5, 7)
   \<and> normalizeTwice (- 5) 7 = (5, - 7) \<and> normalizeTwice (- 5) 7 \<noteq> (- 5, 7)"
  using normalize_twice [of 7 5] normalize_twice [of 7 "- 5"] by simp

section \<open>Properties of the clock-time helpers\<close>

subsection \<open>Digits and two-digit strings\<close>

lemma digit_code: "isDecimalDigit c \<Longrightarrow> 48 \<le> (of_char c :: nat) \<and> (of_char c :: nat) \<le> 57"
  by (simp add: isDecimalDigit_def)

lemma digit_not_special:
  assumes "isDecimalDigit c"
  shows "c \<noteq> CHR '':''" "c \<noteq> CHR ''+''" "c \<noteq> CHR ''-''" "c \<noteq> CHR ''.''"
    "c \<noteq> CHR ''x''" "c \<noteq> CHR ''X''" "c \<noteq> CHR ''o''" "c \<noteq> CHR ''O''"
    "c \<noteq> CHR ''b''" "c \<noteq> CHR ''B''" "c \<noteq> CHR ''I''"
    "\<not> isStrWhiteSpaceChar c"
  using digit_code [OF assms] by (auto simp: isStrWhiteSpaceChar_def)

lemma digit_value:
  "isDecimalDigit c \<Longrightarrow> digitValue c = Some (of_char c - 48)"
  by (simp add: isDecimalDigit_def digitValue_def Let_def)

lemma digit_radix10: "isDecimalDigit c \<Longrightarrow> isRadixDigit 10 c"
proof -
  assume d: "isDecimalDigit c"
  then have "(of_char c :: nat) - 48 < 10" using digit_code [of c] by linarith
  with d show ?thesis by (simp add: isRadixDigit_def digit_value)
qed

lemma char_of_48: "char_of (48 :: nat) = CHR ''0''"
  by (rule of_char_eqI [where ?'a = nat]) simp

lemma digit_char: "isDecimalDigit c \<Longrightarrow> char_of (48 + ((of_char c :: nat) - 48)) = c"
  using digit_code [of c] by simp

lemma digitsValue_two:
  "isDecimalDigit a \<Longrightarrow> isDecimalDigit b \<Longrightarrow>
   digitsValue 10 [a, b] = ((of_char a :: nat) - 48) * 10 + (of_char b - 48)"
  by (simp add: digitsValue_def digit_value)

lemma split_clock:
  assumes "isDecimalDigit m1" "isDecimalDigit m0" "isDecimalDigit s1" "isDecimalDigit s0"
  shows "split CHR '':'' [m1, m0, CHR '':'', s1, s0] = [[m1, m0], [s1, s0]]"
  using assms by (simp add: digit_not_special)

lemma Number_two_digits:
  assumes a: "isDecimalDigit a" and b: "isDecimalDigit b"
  shows "Number [a, b] = Num (real (digitsValue 10 [a, b]))"
proof -
  have trim: "trimString [a, b] = [a, b]"
    using a b by (simp add: trimString_def digit_not_special)
  have nondec: "nonDecimalIntegerLiteral [a, b] = None"
    using b by (simp add: nonDecimalIntegerLiteral_def digit_not_special)
  have unsigned: "strUnsignedDecimalLiteral [a, b] = Num (real (digitsValue 10 [a, b]))"
    using a b by (simp add: strUnsignedDecimalLiteral_def Let_def exponentPart_def scale10_def
        digitsValue_def)
  have "strDecimalLiteral [a, b] = strUnsignedDecimalLiteral [a, b]"
    using a by (simp add: strDecimalLiteral_def digit_not_special)
  with trim nondec unsigned show ?thesis
    by (simp add: Number_def)
qed

lemma digitsOfNat_small: "k < 10 \<Longrightarrow> digitsOfNat k = [char_of (48 + k)]"
  by (simp add: digitsOfNat.simps [of k])

lemma padStart_two_digits:
  assumes "k < 100"
  shows "padStart 2 CHR ''0'' (digitsOfNat k) = [char_of (48 + k div 10), char_of (48 + k mod 10)]"
proof (cases "k < 10")
  case True
  then show ?thesis by (simp add: digitsOfNat_small padStart_def char_of_48)
next
  case False
  with assms have "k div 10 < 10" by simp
  with False show ?thesis
    by (simp add: digitsOfNat.simps [of k] digitsOfNat_small padStart_def)
qed

lemma secondsToTime_in_range:
  assumes "m < 100" "s < 60"
  shows "secondsToTime (int (60 * m + s))
       = [char_of (48 + m div 10), char_of (48 + m mod 10), CHR '':'',
          char_of (48 + s div 10), char_of (48 + s mod 10)]"
proof -
  have d: "int (60 * m + s) div 60 = int m" using assms by simp
  have r: "jsRemainder (int (60 * m + s)) 60 = int s"
    using assms by (simp add: jsRemainder_def sgn_if)
  have "s < 100" using assms by simp
  with assms show ?thesis
    unfolding secondsToTime_def Let_def d r
    by (simp add: toStringInt_def padStart_two_digits)
qed

lemma wellFormedClock_cases:
  assumes "wellFormedClock t"
  obtains m1 m0 s1 s0 where "t = [m1, m0, CHR '':'', s1, s0]"
    "isDecimalDigit m1" "isDecimalDigit m0" "isDecimalDigit s1" "isDecimalDigit s0"
    "(of_char s1 :: nat) \<le> 53"
  using assms
  by (auto simp: wellFormedClock_def split: list.splits)

lemma timeToSeconds_clock:
  assumes "wellFormedClock t"
  shows "timeToSeconds t p
         = Num (of_int ((p - 1) * 1200 + clockMinutes t * 60 + clockSeconds t))"
proof -
  from assms obtain m1 m0 s1 s0 where t: "t = [m1, m0, CHR '':'', s1, s0]"
    and d: "isDecimalDigit m1" "isDecimalDigit m0" "isDecimalDigit s1" "isDecimalDigit s0"
    by (rule wellFormedClock_cases)
  have parts: "map Number (split CHR '':'' t)
      = [Num (real (digitsValue 10 [m1, m0])), Num (real (digitsValue 10 [s1, s0]))]"
    unfolding t split_clock [OF d] by (simp add: Number_two_digits d)
  have "clockMinutes t = int (digitsValue 10 [m1, m0])"
    "clockSeconds t = int (digitsValue 10 [s1, s0])"
    by (simp_all add: clockMinutes_def clockSeconds_def t)
  then show ?thesis
    unfolding timeToSeconds_def Let_def parts
    by (simp add: jmul_def)
qed

lemma clock_values:
  assumes "wellFormedClock t"
  obtains m s where "m < 100" "s < 60" "clockMinutes t = int m" "clockSeconds t = int s"
    "t = [char_of (48 + m div 10), char_of (48 + m mod 10), CHR '':'',
          char_of (48 + s div 10), char_of (48 + s mod 10)]"
proof -
  from assms obtain m1 m0 s1 s0 where t: "t = [m1, m0, CHR '':'', s1, s0]"
    and d: "isDecimalDigit m1" "isDecimalDigit m0" "isDecimalDigit s1" "isDecimalDigit s0"
    and s1: "(of_char s1 :: nat) \<le> 53"
    by (rule wellFormedClock_cases)
  define a where "a = (of_char m1 :: nat) - 48"
  define b where "b = (of_char m0 :: nat) - 48"
  define c where "c = (of_char s1 :: nat) - 48"
  define e where "e = (of_char s0 :: nat) - 48"
  have bounds: "a < 10" "b < 10" "c < 6" "e < 10"
    using d [THEN digit_code] s1 unfolding a_def b_def c_def e_def by linarith+
  have chars: "char_of (48 + a) = m1" "char_of (48 + b) = m0"
    "char_of (48 + c) = s1" "char_of (48 + e) = s0"
    unfolding a_def b_def c_def e_def using d by (simp_all only: digit_char)
  let ?m = "a * 10 + b" and ?s = "c * 10 + e"
  have dm: "?m div 10 = a" "?m mod 10 = b" "?s div 10 = c" "?s mod 10 = e"
    using bounds by simp_all
  show ?thesis
  proof (rule that [of ?m ?s])
    show "?m < 100" "?s < 60" using bounds by linarith+
    show "clockMinutes t = int ?m"
      by (simp add: clockMinutes_def t digitsValue_two d a_def b_def)
    show "clockSeconds t = int ?s"
      by (simp add: clockSeconds_def t digitsValue_two d c_def e_def)
    show "t = [char_of (48 + ?m div 10), char_of (48 + ?m mod 10), CHR '':'',
          char_of (48 + ?s div 10), char_of (48 + ?s mod 10)]"
      unfolding dm chars t ..
  qed
qed

lemma round_trip_first_period:
  assumes "wellFormedClock t"
  shows "\<exists>n. timeToSeconds t 1 = Num (of_int n) \<and> secondsToTime n = t"
proof -
  from assms obtain m s where ms: "m < 100" "s < 60"
    and v: "clockMinutes t = int m" "clockSeconds t = int s"
    and t: "t = [char_of (48 + m div 10), char_of (48 + m mod 10), CHR '':'',
          char_of (48 + s div 10), char_of (48 + s mod 10)]"
    by (rule clock_values)
  have "timeToSeconds t 1 = Num (of_int (int (60 * m + s)))"
    by (simp add: timeToSeconds_clock [OF assms] v)
  moreover have "secondsToTime (int (60 * m + s)) = t"
    using secondsToTime_in_range [OF ms] t by simp
  ultimately show ?thesis by blast
qed

lemma char_of_nat_eq: "char_of (n :: nat) = c \<longleftrightarrow> n mod 256 = of_char c"
  by (simp add: char_of_eq_iff take_bit_eq_mod)

lemma later_period_no_round_trip:
  "wellFormedClock ''00:00'' \<and> timeToSeconds ''00:00'' 2 = Num (of_int 1200)
   \<and> secondsToTime 1200 \<noteq> ''00:00''"
proof -
  have wf: "wellFormedClock ''00:00''"
    by (simp add: wellFormedClock_def isDecimalDigit_def)
  have "timeToSeconds ''00:00'' 2 = Num (of_int 1200)"
    by (simp add: timeToSeconds_clock [OF wf] clockMinutes_def clockSeconds_def digitsValue_def
        digitValue_def)
  moreover have "secondsToTime 1200 \<noteq> ''00:00''"
    using secondsToTime_in_range [of 20 0]
    by (simp add: char_of_nat_eq)
  ultimately show ?thesis using wf by simp
qed

text \<open>
  The seconds of a well-formed clock string are below 60.  Two-digit seconds from 60
  on are carried into the minutes by \<open>secondsToTime\<close>, so such a string does not come
  back.
\<close>

lemma seconds_above_59_no_round_trip:
  "timeToSeconds ''00:75'' 1 = Num 75 \<and> secondsToTime 75 = ''01:15''"
proof -
  have "secondsToTime 75 = ''01:15''"
    using secondsToTime_in_range [of 1 15] by (simp add: char_of_nat_eq)
  moreover have "timeToSeconds ''00:75'' 1 = Num 75"
    by (simp add: timeToSeconds_def Let_def Number_two_digits isDecimalDigit_def digitsValue_def
        digitValue_def jmul_def)
  ultimately show ?thesis by simp
qed

subsection \<open>Conversion and round trip\<close>

text \<open>
  C8.  For every well-formed zero-padded \<open>MM:SS\<close> clock string \<open>t\<close> and every period
  \<open>p \<ge> 1\<close>, \<open>timeToSeconds t p\<close> is \<open>(p - 1) * 1200 + minutes * 60 + seconds\<close>.  In the
  first period \<open>secondsToTime\<close> gives the string back.  From the second period on it
  need not: \<open>secondsToTime\<close> does not take the period offset off again, and
  \<open>00:00\<close> in period 2 comes back as \<open>20:00\<close>.
\<close>

theorem clock_conversions:
  "(wellFormedClock t \<and> 1 \<le> p \<longrightarrow>
      timeToSeconds t p
        = Num (of_int ((p - 1) * 1200 + clockMinutes t * 60 + clockSeconds t)))
   \<and> (wellFormedClock t \<longrightarrow>
        (\<exists>n. timeToSeconds t 1 = Num (of_int n) \<and> secondsToTime n = t))
   \<and> (\<exists>t' p' n. wellFormedClock t' \<and> 2 \<le> p' \<and> timeToSeconds t' p' = Num (of_int n)
                  \<and> secondsToTime n \<noteq> t')"
proof (intro conjI impI)
  assume "wellFormedClock t \<and> 1 \<le> p"
  then show "timeToSeconds t p
        = Num (of_int ((p - 1) * 1200 + clockMinutes t * 60 + clockSeconds t))"
    using timeToSeconds_clock by blast
next
  assume "wellFormedClock t"
  then show "\<exists>n. timeToSeconds t 1 = Num (of_int n) \<and> secondsToTime n = t"
    by (rule round_trip_first_period)
next
  show "\<exists>t' p' n. wellFormedClock t' \<and> 2 \<le> p' \<and> timeToSeconds t' p' = Num (of_int n)
                  \<and> secondsToTime n \<noteq> t'"
    using later_period_no_round_trip
    by (intro exI [of _ "''00:00''"] exI [of _ "2::int"] exI [of _ "1200::int"]) simp
qed

theorem clock_conversions_witness:
  "wellFormedClock ''05:30'' \<and> timeToSeconds ''05:30'' 2 = Num 1530
   \<and> (\<exists>n. timeToSeconds ''05:30'' 1 = Num (of_int n) \<and> secondsToTime n = ''05:30'')"
proof -
  have wf: "wellFormedClock ''05:30''"
    by (simp add: wellFormedClock_def isDecimalDigit_def)
  have v: "clockMinutes ''05:30'' = 5" "clockSeconds ''05:30'' = 30"
    by (simp_all add: clockMinutes_def clockSeconds_def digitsValue_def digitValue_def)
  from clock_conversions [of "''05:30''" 2] wf v show ?thesis by simp
qed

subsection \<open>Strings that are not clock times\<close>




lemma split_not_Nil: "split sep t \<noteq> []"
  by (induction t) (auto split: list.splits)









text \<open>
  An empty component is not in that class: \<open>Number\<close> reads the empty string as 0, so
  \<open>5:\<close> is 300 seconds and a lone colon is 0.  White space around a component,
  the no-break space included, is dropped before it is read.
\<close>

lemma empty_components_count_as_zero:
  "timeToSeconds ''5:'' 1 = Num 300 \<and> timeToSeconds '':'' 1 = Num 0"
  by (simp add: timeToSeconds_def Let_def Number_def trimString_def isStrWhiteSpaceChar_def
      nonDecimalIntegerLiteral_def strDecimalLiteral_def strUnsignedDecimalLiteral_def
      isDecimalDigit_def exponentPart_def scale10_def digitsValue_def digitValue_def jmul_def)

lemma no_break_space_is_trimmed:
  "timeToSeconds [char_of (160 :: nat), CHR ''5'', CHR '':'', CHR ''3'', CHR ''0''] 1 = Num 330"
  by (simp add: timeToSeconds_def Let_def Number_def trimString_def isStrWhiteSpaceChar_def
      nonDecimalIntegerLiteral_def strDecimalLiteral_def strUnsignedDecimalLiteral_def
      isDecimalDigit_def exponentPart_def scale10_def digitsValue_def digitValue_def jmul_def
      char_of_nat_eq)

section \<open>Properties of the Corsi flow\<close>

subsection \<open>The example collation orders clock strings\<close>

lemma clockCollation_Cons_le:
  "clockCollation (x # xs) (y # ys) \<le> 0 \<longleftrightarrow>
     collationRank x < collationRank y
     \<or> (collationRank x = collationRank y \<and> clockCollation xs ys \<le> 0)"
  by auto

lemma clockCollation_Nil_le: "clockCollation [] b \<le> 0"
  by (cases b) simp_all

lemma collationRank_digit: "k < 10 \<Longrightarrow> collationRank (char_of (48 + k :: nat)) = 49 + k"
  by (simp add: collationRank_def char_of_nat_eq)

lemma clockCollation_digit_step:
  assumes "a < 10" "a' < 10"
  shows "clockCollation (char_of (48 + a :: nat) # cs) (char_of (48 + a' :: nat) # ds) \<le> 0
         \<longleftrightarrow> a < a' \<or> (a = a' \<and> clockCollation cs ds \<le> 0)"
  unfolding clockCollation_Cons_le collationRank_digit [OF assms(1)]
    collationRank_digit [OF assms(2)]
  by auto

lemma clockCollation_colon_step:
  "clockCollation (CHR '':'' # cs) (CHR '':'' # ds) \<le> 0 \<longleftrightarrow> clockCollation cs ds \<le> 0"
  unfolding clockCollation_Cons_le by simp

lemma clockCollation_digits:
  fixes a b c e a' b' c' e' :: nat
  assumes "a < 10" "b < 10" "c < 10" "e < 10" "a' < 10" "b' < 10" "c' < 10" "e' < 10"
  shows "clockCollation
           [char_of (48 + a), char_of (48 + b), CHR '':'', char_of (48 + c), char_of (48 + e)]
           [char_of (48 + a'), char_of (48 + b'), CHR '':'', char_of (48 + c'), char_of (48 + e')]
           \<le> 0
         \<longleftrightarrow> a < a' \<or> (a = a' \<and> (b < b' \<or> (b = b' \<and> (c < c' \<or> (c = c' \<and> e \<le> e')))))"
proof -
  have last: "clockCollation [char_of (48 + e)] [char_of (48 + e')] \<le> 0 \<longleftrightarrow> e \<le> e'"
    using clockCollation_digit_step [OF assms(4) assms(8), of "[]" "[]"] by auto
  show ?thesis
    unfolding clockCollation_digit_step [OF assms(1) assms(5)]
      clockCollation_digit_step [OF assms(2) assms(6)]
      clockCollation_colon_step
      clockCollation_digit_step [OF assms(3) assms(7)]
      last ..
qed

lemma clock_order_arith:
  fixes a b c e a' b' c' e' :: nat
  assumes "b < 10" "c < 6" "e < 10" "b' < 10" "c' < 6" "e' < 10"
  shows "(a < a' \<or> (a = a' \<and> (b < b' \<or> (b = b' \<and> (c < c' \<or> (c = c' \<and> e \<le> e'))))))
         \<longleftrightarrow> (a * 10 + b) * 60 + (c * 10 + e) \<le> (a' * 10 + b') * 60 + (c' * 10 + e')"
proof -
  let ?l = "(a * 10 + b) * 60 + (c * 10 + e)" and ?r = "(a' * 10 + b') * 60 + (c' * 10 + e')"
  consider "a < a'" | "a' < a" | "a = a'" "b < b'" | "a = a'" "b' < b"
    | "a = a'" "b = b'" "c < c'" | "a = a'" "b = b'" "c' < c" | "a = a'" "b = b'" "c = c'"
    by linarith
  then show ?thesis
  proof cases
    case 1 with assms have "?l \<le> ?r" by (simp add: add_mult_distrib)
    with 1 show ?thesis by simp
  next
    case 2 with assms have "\<not> ?l \<le> ?r" by (simp add: add_mult_distrib)
    with 2 show ?thesis by simp
  next
    case 3 with assms have "?l \<le> ?r" by (simp add: add_mult_distrib)
    with 3 show ?thesis by simp
  next
    case 4 with assms have "\<not> ?l \<le> ?r" by (simp add: add_mult_distrib)
    with 4 show ?thesis by simp
  next
    case 5 with assms have "?l \<le> ?r" by (simp add: add_mult_distrib)
    with 5 show ?thesis by simp
  next
    case 6 with assms have "\<not> ?l \<le> ?r" by (simp add: add_mult_distrib)
    with 6 show ?thesis by simp
  next
    case 7 then show ?thesis by (simp add: add_mult_distrib)
  qed
qed

lemma clockCollation_clock:
  assumes "wellFormedClock t" "wellFormedClock u"
  shows "clockCollation t u \<le> 0 \<longleftrightarrow> clockTime t \<le> clockTime u"
proof -
  from assms(1) obtain m s where ms: "m < 100" "s < 60"
    and v: "clockMinutes t = int m" "clockSeconds t = int s"
    and t: "t = [char_of (48 + m div 10), char_of (48 + m mod 10), CHR '':'',
          char_of (48 + s div 10), char_of (48 + s mod 10)]"
    by (rule clock_values)
  from assms(2) obtain m' s' where ms': "m' < 100" "s' < 60"
    and v': "clockMinutes u = int m'" "clockSeconds u = int s'"
    and u: "u = [char_of (48 + m' div 10), char_of (48 + m' mod 10), CHR '':'',
          char_of (48 + s' div 10), char_of (48 + s' mod 10)]"
    by (rule clock_values)
  define a b c e where "a = m div 10" and "b = m mod 10" and "c = s div 10" and "e = s mod 10"
  define a' b' c' e' where "a' = m' div 10" and "b' = m' mod 10" and "c' = s' div 10"
    and "e' = s' mod 10"
  have bounds: "a < 10" "b < 10" "c < 6" "e < 10" "a' < 10" "b' < 10" "c' < 6" "e' < 10"
    using ms ms' by (simp_all add: a_def b_def c_def e_def a'_def b'_def c'_def e'_def)
  have vals: "m = a * 10 + b" "s = c * 10 + e" "m' = a' * 10 + b'" "s' = c' * 10 + e'"
    by (simp_all add: a_def b_def c_def e_def a'_def b'_def c'_def e'_def)
  have c10: "c < 10" "c' < 10" using bounds by simp_all
  have "clockCollation t u \<le> 0 \<longleftrightarrow>
      a < a' \<or> (a = a' \<and> (b < b' \<or> (b = b' \<and> (c < c' \<or> (c = c' \<and> e \<le> e')))))"
    unfolding t u a_def [symmetric] b_def [symmetric] c_def [symmetric] e_def [symmetric]
      a'_def [symmetric] b'_def [symmetric] c'_def [symmetric] e'_def [symmetric]
    by (rule clockCollation_digits) (use bounds c10 in simp_all)
  also have "\<dots> \<longleftrightarrow> m * 60 + s \<le> m' * 60 + s'"
    unfolding vals using bounds by (intro clock_order_arith)
  also have "\<dots> \<longleftrightarrow> int m * 60 + int s \<le> int m' * 60 + int s'"
    by linarith
  finally show ?thesis unfolding clockTime_def v v' .
qed

lemma ordersClockStrings_clockCollation: "ordersClockStrings clockCollation"
  unfolding ordersClockStrings_def using clockCollation_clock by blast

text \<open>
  Without the zero padding the string order is not the order of the times: every
  collation puts \<open>10:00\<close> in front of \<open>5:00\<close>, by the first character.
\<close>

lemma unpadded_clock_order: "clockCollation ''10:00'' ''5:00'' \<le> 0"
  by (simp add: collationRank_def)

subsection \<open>The stable sort\<close>

lemma set_insertSorted: "set (insertSorted cmp x ys) = insert x (set ys)"
  by (induction ys) auto

lemma set_sortWith: "set (sortWith cmp xs) = set xs"
  unfolding sortWith_def by (induction xs) (simp_all add: set_insertSorted)

lemma sorted_insertSorted:
  assumes agree: "\<And>a b. a \<in> A \<Longrightarrow> b \<in> A \<Longrightarrow> (cmp a b \<le> 0) = le a b"
    and total: "\<And>a b. \<not> le a b \<Longrightarrow> le b a"
    and trans: "\<And>a b c. le a b \<Longrightarrow> le b c \<Longrightarrow> le a c"
  shows "x \<in> A \<Longrightarrow> set ys \<subseteq> A \<Longrightarrow> sorted_wrt le ys
         \<Longrightarrow> sorted_wrt le (insertSorted cmp x ys)"
proof (induction ys)
  case Nil
  then show ?case by simp
next
  case (Cons y ys)
  from Cons.prems have below: "\<forall>z\<in>set ys. le y z"
    and tail: "sorted_wrt le ys" and y: "y \<in> A" and ys: "set ys \<subseteq> A" and x: "x \<in> A"
    by simp_all
  show ?case
  proof (cases "cmp x y \<le> 0")
    case True
    then have xy: "le x y" using agree [OF x y] by simp
    have "le x z" if "z \<in> set ys" for z
    proof -
      from below that have "le y z" by blast
      with xy show ?thesis by (rule trans)
    qed
    with True xy below tail show ?thesis by simp
  next
    case False
    then have "\<not> le x y" using agree [OF x y] by simp
    then have "le y x" by (rule total)
    moreover have "sorted_wrt le (insertSorted cmp x ys)"
      using x ys tail by (rule Cons.IH)
    ultimately show ?thesis
      using False below by (simp add: set_insertSorted)
  qed
qed

lemma sorted_sortWith:
  assumes "\<And>a b. a \<in> A \<Longrightarrow> b \<in> A \<Longrightarrow> (cmp a b \<le> 0) = le a b"
    and "\<And>a b. \<not> le a b \<Longrightarrow> le b a"
    and "\<And>a b c. le a b \<Longrightarrow> le b c \<Longrightarrow> le a c"
  shows "set xs \<subseteq> A \<Longrightarrow> sorted_wrt le (sortWith cmp xs)"
proof (induction xs)
  case Nil
  then show ?case by (simp add: sortWith_def)
next
  case (Cons x xs)
  then have x: "x \<in> A" and rest: "set (sortWith cmp xs) \<subseteq> A"
    and sorted: "sorted_wrt le (sortWith cmp xs)"
    by (simp_all add: set_sortWith)
  have "sorted_wrt le (insertSorted cmp x (sortWith cmp xs))"
  proof (rule sorted_insertSorted [where A = A])
    show "(cmp a b \<le> 0) = le a b" if "a \<in> A" "b \<in> A" for a b
      using that by (rule assms(1))
    show "le b a" if "\<not> le a b" for a b
      using that by (rule assms(2))
    show "le a c" if "le a b" "le b c" for a b c
      using that by (rule assms(3))
  qed (fact x, fact rest, fact sorted)
  then show ?case by (simp add: sortWith_def)
qed

lemma length_filter_insertSorted:
  "length (filter P (insertSorted cmp x ys)) = length (filter P (x # ys))"
  by (induction ys) auto

lemma length_filter_sortWith:
  "length (filter P (sortWith cmp xs)) = length (filter P xs)"
  unfolding sortWith_def
  by (induction xs) (simp_all add: length_filter_insertSorted)

subsection \<open>The points of the flow\<close>

lemma withTeam_fields [simp]:
  "period (withTeam t s) = period s" "time (withTeam t s) = time s"
  "shotKind (withTeam t s) = shotKind s" "team (withTeam t s) = t"
  by (simp_all add: withTeam_def Shot.defs TeamShot.defs)

lemma length_flowPoints: "length (flowPoints h a xs) = length xs"
  by (induction xs arbitrary: h a) (simp_all add: Let_def)

lemma flowPoints_keys:
  "map (\<lambda>p. (pointPeriod p, pointTime p)) (flowPoints h a xs) = map (\<lambda>s. (period s, time s)) xs"
  by (induction xs arbitrary: h a) (simp_all add: Let_def)

lemma flowPoints_lower:
  "p \<in> set (flowPoints h a xs) \<Longrightarrow> h \<le> homeCorsi p \<and> a \<le> awayCorsi p"
proof (induction xs arbitrary: h a)
  case Nil
  then show ?case by simp
next
  case (Cons x xs)
  let ?h = "if team x = Home then h + 1 else h"
  let ?a = "if team x = Home then a else a + 1"
  from Cons.prems consider
    "homeCorsi p = ?h \<and> awayCorsi p = ?a" | "p \<in> set (flowPoints ?h ?a xs)"
    by (auto simp: Let_def)
  then show ?case
  proof cases
    case 1
    then show ?thesis by simp
  next
    case 2
    then have "?h \<le> homeCorsi p \<and> ?a \<le> awayCorsi p" by (rule Cons.IH)
    then show ?thesis by (simp split: if_splits)
  qed
qed

lemma flowPoints_monotone: "sorted_wrt countersNotAbove (flowPoints h a xs)"
proof (induction xs arbitrary: h a)
  case Nil
  then show ?case by simp
next
  case (Cons x xs)
  let ?h = "if team x = Home then h + 1 else h"
  let ?a = "if team x = Home then a else a + 1"
  let ?p = "\<lparr>pointPeriod = period x, pointTime = time x, timeRemaining = time x,
          pointKind = shotKind x, homeCorsi = ?h, awayCorsi = ?a, differential = ?h - ?a\<rparr>"
  have step: "flowPoints h a (x # xs) = ?p # flowPoints ?h ?a xs"
    by (simp add: Let_def)
  have "countersNotAbove ?p q" if "q \<in> set (flowPoints ?h ?a xs)" for q
    using flowPoints_lower [OF that] by (simp add: countersNotAbove_def)
  moreover have "sorted_wrt countersNotAbove (flowPoints ?h ?a xs)" by (rule Cons.IH)
  ultimately show ?case
    unfolding step by simp
qed

lemma flowPoints_differential:
  "p \<in> set (flowPoints h a xs) \<Longrightarrow> differential p = homeCorsi p - awayCorsi p"
  by (induction xs arbitrary: h a) (auto simp: Let_def)

lemma compareShots_clock:
  assumes "ordersClockStrings collate" "wellFormedClock (time a)" "wellFormedClock (time b)"
  shows "(compareShots collate a b \<le> 0) = shotNotAfter a b"
proof -
  from assms have "(collate (time a) (time b) \<le> 0) = (clockTime (time a) \<le> clockTime (time b))"
    unfolding ordersClockStrings_def by blast
  then show ?thesis
    by (auto simp: compareShots_def shotNotAfter_def)
qed

lemma shotNotAfter_total: "\<not> shotNotAfter a b \<Longrightarrow> shotNotAfter b a"
  unfolding shotNotAfter_def by linarith

lemma shotNotAfter_trans: "shotNotAfter a b \<Longrightarrow> shotNotAfter b c \<Longrightarrow> shotNotAfter a c"
  unfolding shotNotAfter_def by linarith

lemma flowPoints_ordered:
  assumes "sorted_wrt shotNotAfter xs"
  shows "sorted_wrt notAfter (flowPoints h a xs)"
proof -
  let ?R = "\<lambda>(k::int \<times> string) k'.
      fst k < fst k' \<or> (fst k = fst k' \<and> clockTime (snd k) \<le> clockTime (snd k'))"
  have "sorted_wrt ?R (map (\<lambda>s. (period s, time s)) xs)"
    using assms by (simp add: sorted_wrt_map shotNotAfter_def [abs_def])
  then have "sorted_wrt ?R (map (\<lambda>p. (pointPeriod p, pointTime p)) (flowPoints h a xs))"
    by (simp add: flowPoints_keys)
  then show ?thesis
    by (simp add: sorted_wrt_map notAfter_def [abs_def])
qed

lemma flowPoints_last:
  "xs \<noteq> [] \<Longrightarrow>
   homeCorsi (last (flowPoints h a xs)) = h + int (length (filter (\<lambda>s. team s = Home) xs))
   \<and> awayCorsi (last (flowPoints h a xs)) = a + int (length (filter (\<lambda>s. team s \<noteq> Home) xs))"
proof (induction xs arbitrary: h a)
  case Nil
  then show ?case by simp
next
  case (Cons x xs)
  show ?case
  proof (cases "xs = []")
    case True
    then show ?thesis by (simp add: Let_def)
  next
    case False
    then have "flowPoints h' a' xs \<noteq> []" for h' a'
      using length_flowPoints [of h' a' xs] by auto
    with Cons.IH [OF False] show ?thesis by (simp add: Let_def)
  qed
qed

subsection \<open>Counting through the sort\<close>

lemma corsi_count_tagged:
  "length (filter (\<lambda>shot. shotKind shot \<in> set CORSI_EVENTS) (map (withTeam t) shots))
     = calculateCorsiFor shots"
  by (simp add: calculateCorsiFor_def filter_map o_def)

lemma home_count_tagged:
  "length (filter (\<lambda>s. team s = Home \<and> shotKind s \<in> set CORSI_EVENTS)
             (map (withTeam Home) homeShots @ map (withTeam Away) awayShots))
     = calculateCorsiFor homeShots"
  by (simp add: calculateCorsiFor_def filter_map o_def)

lemma away_count_tagged:
  "length (filter (\<lambda>s. team s \<noteq> Home \<and> shotKind s \<in> set CORSI_EVENTS)
             (map (withTeam Home) homeShots @ map (withTeam Away) awayShots))
     = calculateCorsiFor awayShots"
  by (simp add: calculateCorsiFor_def filter_map o_def)

lemma example_times_well_formed:
  "wellFormedClock ''01:00''" "wellFormedClock ''10:00''" "wellFormedClock ''05:00''"
  by (simp_all add: wellFormedClock_def isDecimalDigit_def)

subsection \<open>Order and counters of the flow\<close>

text \<open>
  C2, as stated, fails: a home shot and an away shot at the same clock time of the
  same period give two points that no strict order by period and clock time separates.
\<close>

theorem flow_ties_counterexample:
  "\<not> sorted_wrt strictlyBefore
       (generateCorsiFlow clockCollation [exampleShot ''goal'' 1 ''05:00'']
                                         [exampleShot ''shot-on-goal'' 1 ''05:00''])"
  by (simp add: generateCorsiFlow_def sortWith_def withTeam_def Shot.defs TeamShot.defs
        exampleShot_def compareShots_def CORSI_EVENTS_def strictlyBefore_def Let_def
        collationRank_def)

text \<open>
  C2, amended.  For every pair of event lists whose clock times are zero-padded
  \<open>MM:SS\<close> strings, and every host collation (which orders such strings by the time
  they show), the points of \<open>generateCorsiFlow\<close> are ordered by period and then by
  clock time, ties allowed.  For all event lists and collations the two running counts
  do not decrease from a point to any later point, and the differential of every
  point is its home count minus its away count.
\<close>

theorem flow_ordered_monotone:
  "(ordersClockStrings collate
      \<and> (\<forall>s \<in> set homeShots \<union> set awayShots. wellFormedClock (time s))
      \<longrightarrow> sorted_wrt notAfter (generateCorsiFlow collate homeShots awayShots))
   \<and> sorted_wrt countersNotAbove (generateCorsiFlow collate homeShots awayShots)
   \<and> (\<forall>p \<in> set (generateCorsiFlow collate homeShots awayShots).
         differential p = homeCorsi p - awayCorsi p)"
proof (intro conjI impI)
  let ?tagged = "map (withTeam Home) homeShots @ map (withTeam Away) awayShots"
  let ?all = "sortWith (compareShots collate) ?tagged"
  assume h: "ordersClockStrings collate
      \<and> (\<forall>s \<in> set homeShots \<union> set awayShots. wellFormedClock (time s))"
  define A where "A = {s :: TeamShot. wellFormedClock (time s)}"
  have sub: "set ?tagged \<subseteq> A"
    using h by (auto simp: A_def)
  have "sorted_wrt shotNotAfter ?all"
  proof (rule sorted_sortWith [where A = A])
    show "(compareShots collate a b \<le> 0) = shotNotAfter a b" if "a \<in> A" "b \<in> A" for a b
      using that h by (simp add: A_def compareShots_clock)
    show "shotNotAfter b a" if "\<not> shotNotAfter a b" for a b
      using that by (rule shotNotAfter_total)
    show "shotNotAfter a c" if "shotNotAfter a b" "shotNotAfter b c" for a b c
      using that by (rule shotNotAfter_trans)
  qed (fact sub)
  then have "sorted_wrt shotNotAfter (filter (\<lambda>shot. shotKind shot \<in> set CORSI_EVENTS) ?all)"
    by (rule sorted_wrt_filter)
  then show "sorted_wrt notAfter (generateCorsiFlow collate homeShots awayShots)"
    unfolding generateCorsiFlow_def Let_def by (rule flowPoints_ordered)
next
  show "sorted_wrt countersNotAbove (generateCorsiFlow collate homeShots awayShots)"
    unfolding generateCorsiFlow_def Let_def by (rule flowPoints_monotone)
next
  show "\<forall>p \<in> set (generateCorsiFlow collate homeShots awayShots).
         differential p = homeCorsi p - awayCorsi p"
    unfolding generateCorsiFlow_def Let_def using flowPoints_differential by blast
qed

theorem flow_ordered_monotone_witness:
  "ordersClockStrings clockCollation
   \<and> map (\<lambda>p. (pointPeriod p, pointTime p, homeCorsi p, awayCorsi p, differential p))
       (generateCorsiFlow clockCollation
          [exampleShot ''goal'' 2 ''01:00'', exampleShot ''missed-shot'' 1 ''10:00'']
          [exampleShot ''shot-on-goal'' 1 ''05:00''])
     = [(1, ''05:00'', 0, 1, - 1), (1, ''10:00'', 1, 1, 0), (2, ''01:00'', 2, 1, 1)]
   \<and> sorted_wrt notAfter
       (generateCorsiFlow clockCollation
          [exampleShot ''goal'' 2 ''01:00'', exampleShot ''missed-shot'' 1 ''10:00'']
          [exampleShot ''shot-on-goal'' 1 ''05:00''])"
proof -
  have wf: "\<forall>s \<in> set [exampleShot ''goal'' 2 ''01:00'', exampleShot ''missed-shot'' 1 ''10:00'']
                  \<union> set [exampleShot ''shot-on-goal'' 1 ''05:00'']. wellFormedClock (time s)"
    by (simp add: exampleShot_def example_times_well_formed)
  have flow: "map (\<lambda>p. (pointPeriod p, pointTime p, homeCorsi p, awayCorsi p, differential p))
       (generateCorsiFlow clockCollation
          [exampleShot ''goal'' 2 ''01:00'', exampleShot ''missed-shot'' 1 ''10:00'']
          [exampleShot ''shot-on-goal'' 1 ''05:00''])
     = [(1, ''05:00'', 0, 1, - 1), (1, ''10:00'', 1, 1, 0), (2, ''01:00'', 2, 1, 1)]"
    by (simp add: generateCorsiFlow_def sortWith_def withTeam_def Shot.defs TeamShot.defs
        exampleShot_def compareShots_def CORSI_EVENTS_def Let_def collationRank_def)
  from flow_ordered_monotone [of clockCollation
      "[exampleShot ''goal'' 2 ''01:00'', exampleShot ''missed-shot'' 1 ''10:00'']"
      "[exampleShot ''shot-on-goal'' 1 ''05:00'']"]
    ordersClockStrings_clockCollation wf flow
  show ?thesis by blast
qed

text \<open>
  C10.  For every pair of event lists, \<open>generateCorsiFlow\<close> returns as many points as
  the two lists have Corsi events, and when there is a point, the last one carries the
  Corsi count of the home list and the Corsi count of the away list.  This holds with
  every collation.
\<close>

theorem flow_length_and_last:
  "length (generateCorsiFlow collate homeShots awayShots)
     = calculateCorsiFor homeShots + calculateCorsiFor awayShots
   \<and> (generateCorsiFlow collate homeShots awayShots \<noteq> [] \<longrightarrow>
        homeCorsi (last (generateCorsiFlow collate homeShots awayShots))
          = int (calculateCorsiFor homeShots)
        \<and> awayCorsi (last (generateCorsiFlow collate homeShots awayShots))
          = int (calculateCorsiFor awayShots))"
proof -
  let ?tagged = "map (withTeam Home) homeShots @ map (withTeam Away) awayShots"
  let ?corsi = "\<lambda>shot::TeamShot. shotKind shot \<in> set CORSI_EVENTS"
  let ?xs = "filter ?corsi (sortWith (compareShots collate) ?tagged)"
  have flow: "generateCorsiFlow collate homeShots awayShots = flowPoints 0 0 ?xs"
    by (simp add: generateCorsiFlow_def Let_def)
  have "length ?xs = length (filter ?corsi ?tagged)"
    by (rule length_filter_sortWith)
  also have "\<dots> = calculateCorsiFor homeShots + calculateCorsiFor awayShots"
    by (simp only: filter_append length_append corsi_count_tagged)
  finally have len: "length (generateCorsiFlow collate homeShots awayShots)
      = calculateCorsiFor homeShots + calculateCorsiFor awayShots"
    by (simp add: flow length_flowPoints)
  have home: "length (filter (\<lambda>s. team s = Home) ?xs) = calculateCorsiFor homeShots"
  proof -
    have "filter (\<lambda>s. team s = Home) ?xs
        = filter (\<lambda>s. team s = Home \<and> shotKind s \<in> set CORSI_EVENTS)
            (sortWith (compareShots collate) ?tagged)"
      by (simp add: conj_commute)
    then show ?thesis
      by (simp only: length_filter_sortWith home_count_tagged)
  qed
  have away: "length (filter (\<lambda>s. team s \<noteq> Home) ?xs) = calculateCorsiFor awayShots"
  proof -
    have "filter (\<lambda>s. team s \<noteq> Home) ?xs
        = filter (\<lambda>s. team s \<noteq> Home \<and> shotKind s \<in> set CORSI_EVENTS)
            (sortWith (compareShots collate) ?tagged)"
      by (simp add: conj_commute)
    then show ?thesis
      by (simp only: length_filter_sortWith away_count_tagged)
  qed
  have "homeCorsi (last (flowPoints 0 0 ?xs)) = int (calculateCorsiFor homeShots)
        \<and> awayCorsi (last (flowPoints 0 0 ?xs)) = int (calculateCorsiFor awayShots)"
    if "flowPoints 0 0 ?xs \<noteq> []"
  proof -
    from that have "?xs \<noteq> []" by auto
    from flowPoints_last [OF this, of 0 0] show ?thesis
      by (simp only: home away) simp
  qed
  with len show ?thesis by (simp only: flow) simp
qed

theorem flow_length_and_last_witness:
  "length (generateCorsiFlow clockCollation
             [exampleShot ''goal'' 2 ''01:00'', exampleShot ''missed-shot'' 1 ''10:00'']
             [exampleShot ''shot-on-goal'' 1 ''05:00'', exampleShot ''faceoff'' 1 ''05:00'']) = 3
   \<and> generateCorsiFlow clockCollation
             [exampleShot ''goal'' 2 ''01:00'', exampleShot ''missed-shot'' 1 ''10:00'']
             [exampleShot ''shot-on-goal'' 1 ''05:00'', exampleShot ''faceoff'' 1 ''05:00''] \<noteq> []
   \<and> homeCorsi (last (generateCorsiFlow clockCollation
             [exampleShot ''goal'' 2 ''01:00'', exampleShot ''missed-shot'' 1 ''10:00'']
             [exampleShot ''shot-on-goal'' 1 ''05:00'', exampleShot ''faceoff'' 1 ''05:00''])) = 2
   \<and> awayCorsi (last (generateCorsiFlow clockCollation
             [exampleShot ''goal'' 2 ''01:00'', exampleShot ''missed-shot'' 1 ''10:00'']
             [exampleShot ''shot-on-goal'' 1 ''05:00'', exampleShot ''faceoff'' 1 ''05:00''])) = 1"
proof -
  define flow where "flow = generateCorsiFlow clockCollation
             [exampleShot ''goal'' 2 ''01:00'', exampleShot ''missed-shot'' 1 ''10:00'']
             [exampleShot ''shot-on-goal'' 1 ''05:00'', exampleShot ''faceoff'' 1 ''05:00'']"
  have counts:
    "calculateCorsiFor [exampleShot ''goal'' 2 ''01:00'', exampleShot ''missed-shot'' 1 ''10:00''] = 2"
    "calculateCorsiFor [exampleShot ''shot-on-goal'' 1 ''05:00'', exampleShot ''faceoff'' 1 ''05:00''] = 1"
    by (simp_all add: calculateCorsiFor_def exampleShot_def CORSI_EVENTS_def)
  have all: "length flow = 2 + 1
      \<and> (flow \<noteq> [] \<longrightarrow> homeCorsi (last flow) = int 2 \<and> awayCorsi (last flow) = int 1)"
    using flow_length_and_last [of clockCollation
      "[exampleShot ''goal'' 2 ''01:00'', exampleShot ''missed-shot'' 1 ''10:00'']"
      "[exampleShot ''shot-on-goal'' 1 ''05:00'', exampleShot ''faceoff'' 1 ''05:00'']"]
    unfolding counts flow_def .
  then have len: "length flow = 3" by simp
  then have ne: "flow \<noteq> []" by (cases flow) simp_all
  with all have "homeCorsi (last flow) = 2" "awayCorsi (last flow) = 1" by simp_all
  with len ne show ?thesis unfolding flow_def by blast
qed

section \<open>Properties of the expected-goals estimate\<close>

text \<open>
  The final clamp keeps every number between 0.01 and 0.95, and passes NaN on.  The
  estimate is a number as long as the multiplier read from \<open>typeMultipliers\<close> is one: an
  own key, or no property at all, in which case the multiplier is 1.
\<close>

lemma clamp_Num:
  "Math_min (Math_max (Num r) (Num 0.01)) (Num 0.95) = Num (min (max r 0.01) 0.95)"
  by (simp add: Math_min_def Math_max_def jle_def max_def min_def)

lemma clamp_NaN: "Math_min (Math_max NaN (Num 0.01)) (Num 0.95) = NaN"
  by (simp add: Math_min_def Math_max_def)

lemma jmul_NaN_right: "jmul a NaN = NaN"
  by (cases a) (simp_all add: jmul_def)

lemma multiplier_own_or_missing:
  assumes "key \<notin> set Object_prototype_keys"
  shows "\<exists>m. ToNumber (logicalOr (typeMultipliers_get key) (NumberVal (Num 1.0))) = Num m"
proof (cases "map_of typeMultipliers key")
  case None
  with assms show ?thesis
    by (simp add: typeMultipliers_get_def logicalOr_def ToBoolean_def ToNumber_def)
next
  case (Some m)
  then show ?thesis
    by (simp add: typeMultipliers_get_def logicalOr_def ToBoolean_def ToNumber_def)
qed

lemma estimateXG_bounds:
  assumes "\<And>s. st = Some s \<Longrightarrow> toLowerCase s \<notin> set Object_prototype_keys"
  shows "\<exists>p. estimateXG x y st = Num p \<and> 0.01 \<le> p \<and> p \<le> 0.95"
proof -
  define adjusted where "adjusted =
     max 0 (0.4 - sqrt ((\<bar>x\<bar> - 89)\<^sup>2 + (y - 0)\<^sup>2) * 0.008)
       * (1 - (\<bar>Math_atan2 y (89 - \<bar>x\<bar>)\<bar> * (180 / pi) / 90) * 0.5)"
  define typed where "typed =
     (case st of
        None \<Rightarrow> Num adjusted
      | Some s \<Rightarrow>
          (if s = [] then Num adjusted
           else jmul (Num adjusted)
                  (ToNumber (logicalOr (typeMultipliers_get (toLowerCase s))
                               (NumberVal (Num 1.0))))))"
  have unfold: "estimateXG x y st = Math_min (Math_max typed (Num 0.01)) (Num 0.95)"
    unfolding estimateXG_def Let_def typed_def adjusted_def ..
  have "\<exists>r. typed = Num r"
  proof (cases st)
    case None
    then show ?thesis by (simp add: typed_def)
  next
    case (Some s)
    then have "toLowerCase s \<notin> set Object_prototype_keys" by (rule assms)
    then obtain m where
      "ToNumber (logicalOr (typeMultipliers_get (toLowerCase s)) (NumberVal (Num 1.0))) = Num m"
      using multiplier_own_or_missing by blast
    with Some show ?thesis by (simp add: typed_def jmul_def)
  qed
  then obtain r where "typed = Num r" ..
  then have "estimateXG x y st = Num (min (max r 0.01) 0.95)"
    by (simp only: unfold clamp_Num)
  moreover have "0.01 \<le> min (max r 0.01) 0.95" "min (max r 0.01) 0.95 \<le> (0.95 :: real)"
    by simp_all
  ultimately show ?thesis by blast
qed

text \<open>The scenario of the specification: a tip-in from the goal mouth.\<close>

lemma estimateXG_tip_in: "estimateXG 89 0 (Some ''tip-in'') = Num 0.52"
  by (simp add: estimateXG_def Let_def typeMultipliers_get_def toLowerCase_def
      typeMultipliers_def logicalOr_def ToBoolean_def ToNumber_def jmul_def Math_max_def
      Math_min_def Math_atan2_def jle_def)

lemma toLowerCase_constructor: "toLowerCase ''constructor'' = ''constructor''"
  by (simp add: toLowerCase_def)

text \<open>
  C1 asks that \<open>estimateXG\<close> returns a number between 0.01 and 0.95 for all coordinates
  and every optional shot type.  The source clamps to that interval, but it reads the
  multiplier with \<open>typeMultipliers[key] || 1.0\<close>: for the shot type \<open>constructor\<close> the
  read finds the function inherited from \<open>Object.prototype\<close>, which is truthy and
  multiplies to NaN, and NaN passes through \<open>Math.max\<close> and \<open>Math.min\<close>.  At this
  input the result is NaN for all coordinates, so it is not within the bounds.
\<close>

theorem estimateXG_inherited_key:
  "estimateXG x y (Some ''constructor'') = NaN"
proof -
  have "typeMultipliers_get ''constructor'' = ObjectVal"
    by (simp add: typeMultipliers_get_def typeMultipliers_def Object_prototype_keys_def)
  then have "ToNumber (logicalOr (typeMultipliers_get (toLowerCase ''constructor''))
                         (NumberVal (Num 1.0))) = NaN"
    by (simp add: toLowerCase_constructor logicalOr_def ToBoolean_def ToNumber_def)
  then show ?thesis
    unfolding estimateXG_def Let_def
    by (simp only: option.case list.simps if_False jmul_NaN_right clamp_NaN)
qed

end
